theory Spec2Isabelle
  imports Complex_Main
begin

section \<open>Coordinate codec\<close>

subsection \<open>Encoding: \<open>format_coord\<close> (virtual\_spheres.py) and \<open>_num\<close>\<close>

text \<open>
  Python's \<open>str\<close> of a non-negative integer: its decimal digits, most significant first.
\<close>

definition digit_char :: "nat \<Rightarrow> char" where
  "digit_char d = ''0123456789'' ! d"

fun str_nat :: "nat \<Rightarrow> string" where
  "str_nat n = (if n < 10 then [digit_char n] else str_nat (n div 10) @ [digit_char (n mod 10)])"

declare str_nat.simps [simp del]

text \<open>
  The format specification \<open>{v:{width}d}\<close> of a non-negative \<open>v\<close>: the decimal digits,
  right-aligned in a field of \<open>width\<close> characters. The fill character is the default one,
  a space, and a number longer than the field is not cut.
\<close>

definition fmt_d :: "nat \<Rightarrow> nat \<Rightarrow> string" where
  "fmt_d v width = replicate (width - length (str_nat v)) (CHR '' '') @ str_nat v"

text \<open>
  \<^verbatim>\<open>
  def format_coord(n: int, width: int = 6, sign: bool = True) -> str:
      s = f"{abs(n):{width}d}"
      return ("+" if n >= 0 else "-") + s if sign else s
  \<close>
  The conditional expression binds weaker than \<open>+\<close>: without \<open>sign\<close> the result is \<open>s\<close>.
\<close>

definition format_coord :: "int \<Rightarrow> nat \<Rightarrow> bool \<Rightarrow> string" where
  "format_coord n width sign =
     (let s = fmt_d (nat \<bar>n\<bar>) width
      in if sign then (if n \<ge> 0 then ''+'' else ''-'') @ s else s)"

text \<open>
  \<open>_num\<close> of improved\_fake\_data.py and sim\_runner.py is the same expression over
  \<open>abs(int(n))\<close>; its callers pass integers, on which \<open>int\<close> is the identity.
\<close>

definition py_num :: "int \<Rightarrow> nat \<Rightarrow> bool \<Rightarrow> string" where
  "py_num n width sign =
     (let s = fmt_d (nat \<bar>n\<bar>) width
      in if sign then (if n \<ge> 0 then ''+'' else ''-'') @ s else s)"

text \<open>Python's \<open>sep.join(chunks)\<close>.\<close>

fun join :: "string \<Rightarrow> string list \<Rightarrow> string" where
  "join sep [] = []"
| "join sep [x] = x"
| "join sep (x # y # ys) = x @ sep @ join sep (y # ys)"

text \<open>
  The envelope that \<open>generate_tx_response\<close>, \<open>make_fake_tx_string\<close> and
  \<open>make_dynamic_tx_string\<close> all end with:
  \<^verbatim>\<open>return "TXRESP|OK|" + "|".join(chunks) + "|END"\<close>
\<close>

definition tx_envelope :: "string list \<Rightarrow> string" where
  "tx_envelope chunks = ''TXRESP|OK|'' @ join ''|'' chunks @ ''|END''"

subsection \<open>Decoding: \<open>TX0008_pos_str_to_list\<close> (the reader)\<close>

text \<open>
  \<^verbatim>\<open>
  def TX0008_pos_str_to_list(str_input, len_digit):
      list_position = []
      while len(str_input) > 0:
          if str_input[0] in "+-":
              str_coord = str_input[:len_digit + 1]
              str_coord_point = str_coord[:5] + "." + str_coord[5:]
              list_position.append(str_coord_point)
              str_input = str_input[len_digit + 1:]
          else:
              str_input = str_input[1:]
      return list_position
  \<close>
  The loop is a recursion over the rest of the input with the list built so far.
  A slice beyond the end of a string is the shorter string, never an error, so the
  body has no raising branch. The digit width is a count, a natural number (the reader
  passes \<open>NUM_DIGIT = 6\<close>).
\<close>

function TX0008_loop :: "string \<Rightarrow> nat \<Rightarrow> string list \<Rightarrow> string list" where
  "TX0008_loop str_input len_digit list_position =
     (if length str_input > 0 then
        (if hd str_input \<in> set ''+-'' then
           (let str_coord = take (len_digit + 1) str_input;
                str_coord_point = take 5 str_coord @ ''.'' @ drop 5 str_coord
            in TX0008_loop (drop (len_digit + 1) str_input) len_digit
                 (list_position @ [str_coord_point]))
         else TX0008_loop (drop 1 str_input) len_digit list_position)
      else list_position)"
  by pat_completeness auto
termination
  by (relation "measure (\<lambda>(s, n, acc). length s)") auto

declare TX0008_loop.simps [simp del]

definition TX0008_pos_str_to_list :: "string \<Rightarrow> nat \<Rightarrow> string list" where
  "TX0008_pos_str_to_list str_input len_digit = TX0008_loop str_input len_digit []"

definition is_sign :: "char \<Rightarrow> bool" where
  "is_sign c = (c = CHR ''+'' \<or> c = CHR ''-'')"

subsection \<open>Reading a decoded token back\<close>

text \<open>
  The round trip of the codec is stated with two readings of a decoded token, neither of
  them part of the program: the token with the decimal point taken out again, and the
  integer that its sign and its digit characters spell (padding and point ignored).
\<close>

definition strip_point :: "string \<Rightarrow> string" where
  "strip_point tok = filter (\<lambda>c. c \<noteq> CHR ''.'') tok"

definition is_digit :: "char \<Rightarrow> bool" where
  "is_digit c = (c \<in> set ''0123456789'')"

definition digit_val :: "char \<Rightarrow> nat" where
  "digit_val c = of_char c - 48"

definition dec_val :: "string \<Rightarrow> nat" where
  "dec_val ds = foldl (\<lambda>a c. 10 * a + digit_val c) 0 ds"

definition token_int :: "string \<Rightarrow> int" where
  "token_int tok =
     (let m = int (dec_val (filter is_digit tok))
      in if take 1 tok = ''-'' then - m else m)"

text \<open>The decoder's \<open>str_coord[:5] + "." + str_coord[5:]\<close>, named for the statements below.\<close>

definition with_point :: "string \<Rightarrow> string" where
  "with_point str_coord = take 5 str_coord @ ''.'' @ drop 5 str_coord"

text \<open>A token of full width \<open>n\<close>: a sign character and \<open>n\<close> more characters.\<close>

definition wellformed :: "nat \<Rightarrow> string \<Rightarrow> bool" where
  "wellformed n t = (case t of [] \<Rightarrow> False | c # body \<Rightarrow> is_sign c \<and> length body = n)"

section \<open>Motion model and target simulator (virtual\_spheres.py)\<close>

text \<open>
  Python floats are modelled by real numbers. The properties proved below are about which
  branch of the motion dispatch is taken, which draws are made and in what order the
  targets are visited; none depends on rounding.

  \<open>time.time()\<close> and \<open>random.random()\<close> read the outside world. The world is a record
  holding the readings the clock will return and the numbers the generator will draw, each
  with a count of how many were consumed; every function that reads one returns the
  world advanced.
\<close>

record world =
  clock :: "nat \<Rightarrow> real"
  clock_reads :: nat
  draws :: "nat \<Rightarrow> real"
  draws_used :: nat

definition time_time :: "world \<Rightarrow> real \<times> world" where
  "time_time w = (clock w (clock_reads w), w\<lparr>clock_reads := Suc (clock_reads w)\<rparr>)"

text \<open>\<open>random.uniform(a, b)\<close> is \<open>a + (b - a) * random()\<close>.\<close>

definition random_uniform :: "real \<Rightarrow> real \<Rightarrow> world \<Rightarrow> real \<times> world" where
  "random_uniform a b w =
     (a + (b - a) * draws w (draws_used w), w\<lparr>draws_used := Suc (draws_used w)\<rparr>)"

text \<open>\<open>int(x)\<close> of a float truncates toward zero.\<close>

definition py_int :: "real \<Rightarrow> int" where
  "py_int r = (if r \<ge> 0 then \<lfloor>r\<rfloor> else \<lceil>r\<rceil>)"

record SphereConfig =
  center :: "real \<times> real \<times> real"
  motion_type :: string
  amplitude :: real
  frequency :: real
  phase :: real
  noise :: real

record VirtualSphere =
  config :: SphereConfig
  start_time :: real

text \<open>\<open>VirtualSphere.__init__\<close>: the start time is the clock reading at creation.\<close>

definition new_VirtualSphere :: "SphereConfig \<Rightarrow> world \<Rightarrow> VirtualSphere \<times> world" where
  "new_VirtualSphere cfg w =
     (let (now, w1) = time_time w in (\<lparr>config = cfg, start_time = now\<rparr>, w1))"

text \<open>
  The offset part of \<open>VirtualSphere.get_position\<close>: the \<open>if\<close>/\<open>elif\<close> chain over
  \<open>motion_type\<close>, in the source's order, at elapsed time \<open>t\<close>. Only \<open>random_walk\<close> draws.
  \<^verbatim>\<open>
  if self.config.motion_type == "static":
      dx, dy, dz = 0, 0, 0
  elif self.config.motion_type == "circle_xy":
      angle = t * self.config.frequency + self.config.phase
      dx = self.config.amplitude * math.cos(angle)
      dy = self.config.amplitude * math.sin(angle)
      dz = 0
  elif self.config.motion_type == "circle_xz":
      angle = t * self.config.frequency + self.config.phase
      dx = self.config.amplitude * math.cos(angle)
      dy = 0
      dz = self.config.amplitude * math.sin(angle)
  elif self.config.motion_type == "wave_x":
      dx = self.config.amplitude * math.sin(t * self.config.frequency + self.config.phase)
      dy, dz = 0, 0
  elif self.config.motion_type == "wave_xyz":
      dx = self.config.amplitude * math.sin(t * self.config.frequency + self.config.phase)
      dy = self.config.amplitude * math.sin(t * self.config.frequency * 1.3 + self.config.phase)
      dz = self.config.amplitude * math.sin(t * self.config.frequency * 0.7 + self.config.phase)
  elif self.config.motion_type == "spiral":
      angle = t * self.config.frequency + self.config.phase
      r = self.config.amplitude * (1 + 0.1 * t)
      dx = r * math.cos(angle)
      dy = r * math.sin(angle)
      dz = self.config.amplitude * 0.5 * math.sin(t * 0.5)
  elif self.config.motion_type == "random_walk":
      dx = random.uniform(-self.config.amplitude, self.config.amplitude)
      dy = random.uniform(-self.config.amplitude, self.config.amplitude)
      dz = random.uniform(-self.config.amplitude * 0.3, self.config.amplitude * 0.3)
  else:
      dx, dy, dz = 0, 0, 0
  \<close>
\<close>

definition offset :: "SphereConfig \<Rightarrow> real \<Rightarrow> world \<Rightarrow> (real \<times> real \<times> real) \<times> world" where
  "offset cfg t w =
     (if motion_type cfg = ''static'' then ((0, 0, 0), w)
      else if motion_type cfg = ''circle_xy'' then
        (let angle = t * frequency cfg + phase cfg
         in ((amplitude cfg * cos angle, amplitude cfg * sin angle, 0), w))
      else if motion_type cfg = ''circle_xz'' then
        (let angle = t * frequency cfg + phase cfg
         in ((amplitude cfg * cos angle, 0, amplitude cfg * sin angle), w))
      else if motion_type cfg = ''wave_x'' then
        ((amplitude cfg * sin (t * frequency cfg + phase cfg), 0, 0), w)
      else if motion_type cfg = ''wave_xyz'' then
        ((amplitude cfg * sin (t * frequency cfg + phase cfg),
          amplitude cfg * sin (t * frequency cfg * 1.3 + phase cfg),
          amplitude cfg * sin (t * frequency cfg * 0.7 + phase cfg)), w)
      else if motion_type cfg = ''spiral'' then
        (let angle = t * frequency cfg + phase cfg;
             r = amplitude cfg * (1 + 0.1 * t)
         in ((r * cos angle, r * sin angle, amplitude cfg * 0.5 * sin (t * 0.5)), w))
      else if motion_type cfg = ''random_walk'' then
        (let (dx, w1) = random_uniform (- amplitude cfg) (amplitude cfg) w;
             (dy, w2) = random_uniform (- amplitude cfg) (amplitude cfg) w1;
             (dz, w3) = random_uniform (- amplitude cfg * 0.3) (amplitude cfg * 0.3) w2
         in ((dx, dy, dz), w3))
      else ((0, 0, 0), w))"

text \<open>
  \<open>VirtualSphere.get_position\<close>: read the clock, compute the offset, then draw the noise
  of the three axes in the order of the returned tuple.
  \<^verbatim>\<open>
  t = time.time() - self.start_time
  x, y, z = self.config.center
  ...
  noise = lambda: random.uniform(-self.config.noise, self.config.noise)
  return (int(x + dx + noise()), int(y + dy + noise()), int(z + dz + noise()))
  \<close>
\<close>

definition get_position :: "VirtualSphere \<Rightarrow> world \<Rightarrow> (int \<times> int \<times> int) \<times> world" where
  "get_position self w =
     (let (now, w1) = time_time w;
          t = now - start_time self;
          (x, y, z) = center (config self);
          ((dx, dy, dz), w2) = offset (config self) t w1;
          (nx, w3) = random_uniform (- noise (config self)) (noise (config self)) w2;
          (ny, w4) = random_uniform (- noise (config self)) (noise (config self)) w3;
          (nz, w5) = random_uniform (- noise (config self)) (noise (config self)) w4
      in ((py_int (x + dx + nx), py_int (y + dy + ny), py_int (z + dz + nz)), w5))"

record SphereSimulator =
  spheres :: "VirtualSphere list"

definition new_SphereSimulator :: SphereSimulator where
  "new_SphereSimulator = \<lparr>spheres = []\<rparr>"

text \<open>\<open>add_sphere\<close>: \<open>self.spheres.append(VirtualSphere(config))\<close>.\<close>

definition add_sphere :: "SphereConfig \<Rightarrow> SphereSimulator \<Rightarrow> world \<Rightarrow> SphereSimulator \<times> world" where
  "add_sphere cfg sim w =
     (let (s, w1) = new_VirtualSphere cfg w in (sim\<lparr>spheres := spheres sim @ [s]\<rparr>, w1))"

text \<open>\<open>clear\<close>: \<open>self.spheres.clear()\<close>.\<close>

definition clear :: "SphereSimulator \<Rightarrow> SphereSimulator" where
  "clear sim = sim\<lparr>spheres := []\<rparr>"

text \<open>
  \<open>get_all_positions\<close>: \<open>[sphere.get_position() for sphere in self.spheres]\<close>. The
  comprehension visits the spheres from first to last, each visit reading the world the
  previous one left.
\<close>

fun positions_of :: "VirtualSphere list \<Rightarrow> world \<Rightarrow> (int \<times> int \<times> int) list \<times> world" where
  "positions_of [] w = ([], w)"
| "positions_of (s # ss) w =
     (let (p, w1) = get_position s w;
          (ps, w2) = positions_of ss w1
      in (p # ps, w2))"

definition get_all_positions :: "SphereSimulator \<Rightarrow> world \<Rightarrow> (int \<times> int \<times> int) list \<times> world" where
  "get_all_positions sim w = positions_of (spheres sim) w"

text \<open>
  \<^verbatim>\<open>
  def generate_tx_response(simulator: SphereSimulator) -> str:
      positions = simulator.get_all_positions()
      coords = []
      for x, y, z in positions:
          coords.extend([x, y, z])
      chunks = [format_coord(c) for c in coords]
      return "TXRESP|OK|" + "|".join(chunks) + "|END"
  \<close>
  \<open>format_coord(c)\<close> takes the defaults \<open>width = 6\<close> and \<open>sign = True\<close>.
\<close>

definition generate_tx_response :: "SphereSimulator \<Rightarrow> world \<Rightarrow> string \<times> world" where
  "generate_tx_response simulator w =
     (let (positions, w1) = get_all_positions simulator w;
          coords = concat (map (\<lambda>(x, y, z). [x, y, z]) positions);
          chunks = map (\<lambda>c. format_coord c 6 True) coords
      in (tx_envelope chunks, w1))"

text \<open>A sequence of \<open>add_sphere\<close> calls, one per configuration, in the order of the list.\<close>

fun add_spheres :: "SphereConfig list \<Rightarrow> SphereSimulator \<Rightarrow> world \<Rightarrow> SphereSimulator \<times> world" where
  "add_spheres [] sim w = (sim, w)"
| "add_spheres (cfg # cfgs) sim w = (let (sim1, w1) = add_sphere cfg sim w in add_spheres cfgs sim1 w1)"

text \<open>
  A sample world for concrete runs: the clock stands at 0 and every draw of the generator
  is 0.
\<close>

definition still_world :: world where
  "still_world = \<lparr>clock = (\<lambda>k. 0), clock_reads = 0, draws = (\<lambda>k. 0), draws_used = 0\<rparr>"

text \<open>
  \<open>SphereConfig(c, "static", noise=0)\<close>: a static target without noise, the other fields at
  the defaults of the dataclass (amplitude 5000, frequency 0.5, phase 0.0).
\<close>

definition static_quiet :: "real \<times> real \<times> real \<Rightarrow> SphereConfig" where
  "static_quiet c = \<lparr>center = c, motion_type = ''static'', amplitude = 5000,
                      frequency = 0.5, phase = 0.0, noise = 0\<rparr>"

section \<open>Event scheduler (sim\_runner.py, sim\_runner\_flexible.py)\<close>

text \<open>
  \<^verbatim>\<open>
  class _KeyboardMock:
      def __init__(self, schedule):
          self.schedule = dict(schedule)
          self.tick = 0
          self._fired = set()
          self._lock = threading.Lock()
          self._history = []
  \<close>
  The schedule is a dictionary from ticks to keys, the fired set a set of ticks. The lock
  is not a value of the state; what it protects is the subject of the last section.
\<close>

record KeyboardMock =
  schedule :: "int \<rightharpoonup> string"
  tick :: int
  fired :: "int set"
  history :: "(int \<times> string) list"

definition new_KeyboardMock :: "(int \<rightharpoonup> string) \<Rightarrow> KeyboardMock" where
  "new_KeyboardMock sched = \<lparr>schedule = sched, tick = 0, fired = {}, history = []\<rparr>"

text \<open>
  sim\_runner.py:
  \<^verbatim>\<open>
  def is_pressed(self, key):
      with self._lock:
          want = self.schedule.get(self.tick)
          if want == key and self.tick not in self._fired:
              self._fired.add(self.tick)
              self._history.append((self.tick, key))
              return True
          return False
  \<close>
  \<open>schedule.get\<close> gives \<open>None\<close> for a tick without entry, and \<open>None\<close> equals no key.
\<close>

definition is_pressed :: "string \<Rightarrow> KeyboardMock \<Rightarrow> bool \<times> KeyboardMock" where
  "is_pressed key self =
     (let want = schedule self (tick self)
      in if want = Some key \<and> tick self \<notin> fired self
         then (True, self\<lparr>fired := insert (tick self) (fired self),
                           history := history self @ [(tick self, key)]\<rparr>)
         else (False, self))"

text \<open>
  sim\_runner\_flexible.py has the same method without the history (its class has no
  \<open>_history\<close> field; the field of the record is left alone).
\<close>

definition is_pressed_flexible :: "string \<Rightarrow> KeyboardMock \<Rightarrow> bool \<times> KeyboardMock" where
  "is_pressed_flexible key self =
     (let want = schedule self (tick self)
      in if want = Some key \<and> tick self \<notin> fired self
         then (True, self\<lparr>fired := insert (tick self) (fired self)\<rparr>)
         else (False, self))"

text \<open>
  The tick is advanced from outside the class, by \<open>_ticker\<close> and by the patched \<open>sleep\<close>:
  \<open>mock.tick += 1\<close>.
\<close>

definition advance :: "KeyboardMock \<Rightarrow> KeyboardMock" where
  "advance self = self\<lparr>tick := tick self + 1\<rparr>"

text \<open>
  A run of the scheduler: queries and tick advances in any order. \<open>run\<close> records, for each
  query, the tick at which it was made, the key asked for and the answer. The query
  method is a parameter, so that both versions are covered.
\<close>

datatype event = Query string | Advance

fun run :: "(string \<Rightarrow> KeyboardMock \<Rightarrow> bool \<times> KeyboardMock) \<Rightarrow> event list \<Rightarrow> KeyboardMock
              \<Rightarrow> (int \<times> string \<times> bool) list" where
  "run q [] m = []"
| "run q (Query key # es) m = (let (r, m1) = q key m in (tick m, key, r) # run q es m1)"
| "run q (Advance # es) m = run q es (advance m)"

text \<open>The answers that a run gave while the tick was \<open>t\<close>.\<close>

definition answers_at :: "int \<Rightarrow> (int \<times> string \<times> bool) list \<Rightarrow> bool list" where
  "answers_at t entries = map (\<lambda>(t1, key, r). r) (filter (\<lambda>(t1, key, r). t1 = t) entries)"

text \<open>What both query methods do to the part of the state that decides the answer.\<close>

definition one_shot :: "(string \<Rightarrow> KeyboardMock \<Rightarrow> bool \<times> KeyboardMock) \<Rightarrow> bool" where
  "one_shot q = (\<forall>key m.
      fst (q key m) = (schedule m (tick m) = Some key \<and> tick m \<notin> fired m)
    \<and> tick (snd (q key m)) = tick m
    \<and> schedule (snd (q key m)) = schedule m
    \<and> fired (snd (q key m)) = (if fst (q key m) then insert (tick m) (fired m) else fired m))"

text \<open>
  A scheduler built from the schedule \<open>{5: 'c'}\<close> whose tick was advanced five times.
\<close>

definition at_tick_5 :: KeyboardMock where
  "at_tick_5 = advance (advance (advance (advance (advance (new_KeyboardMock [5 \<mapsto> ''c''])))))"

text \<open>The scheduler that a run leaves.\<close>

fun state_after :: "(string \<Rightarrow> KeyboardMock \<Rightarrow> bool \<times> KeyboardMock) \<Rightarrow> event list \<Rightarrow> KeyboardMock
              \<Rightarrow> KeyboardMock" where
  "state_after q [] m = m"
| "state_after q (Query key # es) m = state_after q es (snd (q key m))"
| "state_after q (Advance # es) m = state_after q es (advance m)"

section \<open>Diff renderer (\<open>SmoothDisplay\<close>)\<close>

text \<open>
  The renderer writes to standard output and keeps the lines of the last frame. A call of
  \<open>update\<close> is modelled by the list of strings it passes to \<open>sys.stdout.write\<close>, in order,
  and the display it leaves. \<open>\033[H\<close> moves the cursor home, \<open>\033[K\<close> clears to the end
  of the line.
\<close>

definition cursor_home :: string where
  "cursor_home = [CHR 0x1B, CHR ''['', CHR ''H'']"

definition clear_eol :: string where
  "clear_eol = [CHR 0x1B, CHR ''['', CHR ''K'']"

definition newline :: string where
  "newline = [CHR 0x0A]"

record SmoothDisplay =
  last_lines :: "string list"
  enabled :: bool

text \<open>\<open>__init__\<close> of sim\_runner.py; no statement of the repository sets \<open>enabled\<close> again.\<close>

definition new_SmoothDisplay :: SmoothDisplay where
  "new_SmoothDisplay = \<lparr>last_lines = [], enabled = True\<rparr>"

text \<open>
  sim\_runner.py:
  \<^verbatim>\<open>
  def update(self, lines):
      if not self.enabled:
          return
      sys.stdout.write('\033[H')
      for line in lines:
          sys.stdout.write('\033[K')
          sys.stdout.write(line + '\n')
      if len(lines) < len(self.last_lines):
          for _ in range(len(self.last_lines) - len(lines)):
              sys.stdout.write('\033[K\n')
      sys.stdout.flush()
      self.last_lines = lines
  \<close>
\<close>

definition update :: "string list \<Rightarrow> SmoothDisplay \<Rightarrow> string list \<times> SmoothDisplay" where
  "update lines self =
     (if \<not> enabled self then ([], self)
      else
        (let head = [cursor_home];
             body = concat (map (\<lambda>line. [clear_eol, line @ newline]) lines);
             tail = (if length lines < length (last_lines self)
                     then replicate (length (last_lines self) - length lines) (clear_eol @ newline)
                     else [])
         in (head @ body @ tail, self\<lparr>last_lines := lines\<rparr>)))"

text \<open>
  The reader's \<open>SmoothDisplay.update\<close> is the same method without the \<open>enabled\<close> test (its
  class has no such field; the field of the record is left alone).
\<close>

definition update_reader :: "string list \<Rightarrow> SmoothDisplay \<Rightarrow> string list \<times> SmoothDisplay" where
  "update_reader lines self =
     (let head = [cursor_home];
          body = concat (map (\<lambda>line. [clear_eol, line @ newline]) lines);
          tail = (if length lines < length (last_lines self)
                  then replicate (length (last_lines self) - length lines) (clear_eol @ newline)
                  else [])
      in (head @ body @ tail, self\<lparr>last_lines := lines\<rparr>))"

text \<open>
  \<^verbatim>\<open>
  def clear_and_reset(self):
      if platform.system() == "Windows":
          os.system("cls")
      else:
          os.system("clear")
      self.last_lines = []
  \<close>
  The screen is cleared by a command of the operating system, not by a write to standard
  output; what remains for the display is the empty last frame.
\<close>

definition clear_and_reset :: "SmoothDisplay \<Rightarrow> SmoothDisplay" where
  "clear_and_reset self = self\<lparr>last_lines := []\<rparr>"

text \<open>
  The life of a display of sim\_runner.py: created by \<open>__init__\<close>, then any sequence of
  \<open>update\<close> and \<open>clear_and_reset\<close> calls.
\<close>

datatype display_call = Update "string list" | Reset

fun after_calls :: "display_call list \<Rightarrow> SmoothDisplay \<Rightarrow> SmoothDisplay" where
  "after_calls [] self = self"
| "after_calls (Update lines # calls) self = after_calls calls (snd (update lines self))"
| "after_calls (Reset # calls) self = after_calls calls (clear_and_reset self)"

section \<open>Threads, the lock and the tick counter (sim\_runner.py)\<close>

text \<open>
  Two threads work on one \<open>_KeyboardMock\<close>: the main thread, which runs the reader (it
  calls \<open>is_pressed\<close> and \<open>time.sleep\<close>), and the thread started on \<open>_ticker\<close>. Each
  routine is the list of its steps on the shared object; a thread switch can fall between
  any two of them. \<open>with self._lock:\<close> is \<open>Acquire\<close> on entry and \<open>Release\<close> on exit,
  and \<open>tick += 1\<close> is a read of the counter followed by a write.
\<close>

datatype thread = Reader | Cadence

datatype instr =
    Acquire
  | Release
  | Load_tick
  | Store_tick
  | Get_want
  | Test string
  | Add_fired
  | Append_history string
  | Real_sleep

text \<open>
  What a thread keeps for itself: the steps still to do, the value read by \<open>Load_tick\<close>,
  the local \<open>want\<close> and the outcome of the test of \<open>is_pressed\<close>.
\<close>

record frame =
  todo :: "instr list"
  tmp :: int
  want :: "string option"
  ok :: bool

record config =
  mock :: KeyboardMock
  lock :: "thread option"
  reader :: frame
  cadence :: frame

text \<open>
  \<^verbatim>\<open>
  def is_pressed(self, key):
      with self._lock:
          want = self.schedule.get(self.tick)
          if want == key and self.tick not in self._fired:
              self._fired.add(self.tick)
              self._history.append((self.tick, key))
              return True
          return False
  \<close>
  Every statement reads \<open>self.tick\<close> anew. The two statements of the branch are steps
  that do nothing when the test failed.
\<close>

definition is_pressed_prog :: "string \<Rightarrow> instr list" where
  "is_pressed_prog key = [Acquire, Get_want, Test key, Add_fired, Append_history key, Release]"

text \<open>
  The patched wait, installed as \<open>time.sleep\<close> when \<open>PATCH_TIME_SLEEP\<close> is set (it is):
  \<^verbatim>\<open>
  def _sleep(dt=0.02):
      keyboard_mock.tick += 1
      _real_sleep(dt)
  \<close>
\<close>

definition sleep_prog :: "instr list" where
  "sleep_prog = [Load_tick, Store_tick, Real_sleep]"

text \<open>
  One round of the loop of \<open>_ticker\<close>:
  \<^verbatim>\<open>
  def _ticker(mock, period=0.05):
      while True:
          _time.sleep(period)
          with mock._lock:
              mock.tick += 1
  \<close>
  \<open>_time\<close> is the module \<open>time\<close>, so once the patch is installed the call
  \<open>_time.sleep(period)\<close> runs \<open>_sleep\<close>; before (and in sim\_runner\_flexible.py, which has
  no patch) it is the real wait.
\<close>

definition ticker_prog :: "bool \<Rightarrow> instr list" where
  "ticker_prog patched =
     (if patched then sleep_prog else [Real_sleep]) @ [Acquire, Load_tick, Store_tick, Release]"

text \<open>The steps that read or write the tick counter or the fired set.\<close>

fun touches_shared :: "instr \<Rightarrow> bool" where
  "touches_shared Acquire = False"
| "touches_shared Release = False"
| "touches_shared Real_sleep = False"
| "touches_shared i = True"

text \<open>
  One step of thread \<open>th\<close> with frame \<open>f\<close> on the shared object \<open>m\<close> under lock state \<open>lk\<close>.
  \<open>Acquire\<close> cannot be taken while the lock is held (\<open>threading.Lock\<close> is not reentrant);
  every other step can always be taken, whoever holds the lock.
\<close>

fun exec :: "instr \<Rightarrow> thread \<Rightarrow> frame \<Rightarrow> KeyboardMock \<Rightarrow> thread option
               \<Rightarrow> (frame \<times> KeyboardMock \<times> thread option) option" where
  "exec Acquire th f m lk = (if lk = None then Some (f, m, Some th) else None)"
| "exec Release th f m lk = Some (f, m, None)"
| "exec Load_tick th f m lk = Some (f\<lparr>tmp := tick m\<rparr>, m, lk)"
| "exec Store_tick th f m lk = Some (f, m\<lparr>tick := tmp f + 1\<rparr>, lk)"
| "exec Get_want th f m lk = Some (f\<lparr>want := schedule m (tick m)\<rparr>, m, lk)"
| "exec (Test key) th f m lk = Some (f\<lparr>ok := (want f = Some key \<and> tick m \<notin> fired m)\<rparr>, m, lk)"
| "exec Add_fired th f m lk =
     Some (f, if ok f then m\<lparr>fired := insert (tick m) (fired m)\<rparr> else m, lk)"
| "exec (Append_history key) th f m lk =
     Some (f, if ok f then m\<lparr>history := history m @ [(tick m, key)]\<rparr> else m, lk)"
| "exec Real_sleep th f m lk = Some (f, m, lk)"

definition frame_of :: "thread \<Rightarrow> config \<Rightarrow> frame" where
  "frame_of th c = (case th of Reader \<Rightarrow> reader c | Cadence \<Rightarrow> cadence c)"

definition set_frame :: "thread \<Rightarrow> frame \<Rightarrow> config \<Rightarrow> config" where
  "set_frame th f c = (case th of Reader \<Rightarrow> c\<lparr>reader := f\<rparr> | Cadence \<Rightarrow> c\<lparr>cadence := f\<rparr>)"

text \<open>The next step of thread \<open>th\<close>; \<open>None\<close> when it has none left or waits for the lock.\<close>

definition step :: "thread \<Rightarrow> config \<Rightarrow> config option" where
  "step th c =
     (case todo (frame_of th c) of
        [] \<Rightarrow> None
      | i # rest \<Rightarrow>
          (case exec i th ((frame_of th c)\<lparr>todo := rest\<rparr>) (mock c) (lock c) of
             None \<Rightarrow> None
           | Some (f, m, lk) \<Rightarrow> Some (set_frame th f (c\<lparr>mock := m, lock := lk\<rparr>))))"

text \<open>
  The next step of \<open>th\<close> is an access to the tick counter or the fired set made without
  holding the lock.
\<close>

definition unguarded :: "thread \<Rightarrow> config \<Rightarrow> bool" where
  "unguarded th c =
     (case todo (frame_of th c) of
        [] \<Rightarrow> False
      | i # rest \<Rightarrow> touches_shared i \<and> lock c \<noteq> Some th)"

text \<open>
  An execution is the list of the threads that take the successive steps. \<open>run_threads\<close>
  gives the number of unguarded accesses in it and the configuration reached, or \<open>None\<close>
  when a thread is asked for a step it cannot take.
\<close>

fun run_threads :: "thread list \<Rightarrow> config \<Rightarrow> (nat \<times> config) option" where
  "run_threads [] c = Some (0, c)"
| "run_threads (th # ths) c =
     (case step th c of
        None \<Rightarrow> None
      | Some c1 \<Rightarrow>
          (case run_threads ths c1 of
             None \<Rightarrow> None
           | Some (n, c2) \<Rightarrow> Some ((if unguarded th c then 1 else 0) + n, c2)))"

text \<open>
  Lock discipline of a list of steps, for a thread that holds the lock (\<open>h\<close>) or does
  not: the lock is taken only when not held and given back only when held, every access
  to the shared state lies between the two, and the lock is not held at the end.
\<close>

fun disciplined :: "bool \<Rightarrow> instr list \<Rightarrow> bool" where
  "disciplined h [] = (\<not> h)"
| "disciplined h (Acquire # is) = (\<not> h \<and> disciplined True is)"
| "disciplined h (Release # is) = (h \<and> disciplined False is)"
| "disciplined h (i # is) = ((touches_shared i \<longrightarrow> h) \<and> disciplined h is)"

text \<open>A thread about to run the steps \<open>is\<close>, and the start of an execution.\<close>

definition fresh :: "instr list \<Rightarrow> frame" where
  "fresh is = \<lparr>todo = is, tmp = 0, want = None, ok = False\<rparr>"

definition start :: "KeyboardMock \<Rightarrow> instr list \<Rightarrow> instr list \<Rightarrow> config" where
  "start m rs cs = \<lparr>mock = m, lock = None, reader = fresh rs, cadence = fresh cs\<rparr>"

text \<open>
  The scheduler of the schedule \<open>{5: 'c', 6: 'e'}\<close> at tick 5, with nothing fired.
\<close>

definition two_events :: KeyboardMock where
  "two_events = \<lparr>schedule = [5 \<mapsto> ''c'', 6 \<mapsto> ''e''], tick = 5, fired = {}, history = []\<rparr>"

text \<open>
  The invariant of executions in which both threads keep the lock discipline: each
  thread's remaining steps are disciplined for the lock state it is in.
\<close>

definition lock_inv :: "config \<Rightarrow> bool" where
  "lock_inv c = (disciplined (lock c = Some Reader) (todo (reader c))
               \<and> disciplined (lock c = Some Cadence) (todo (cadence c)))"

section \<open>Properties of the decoder\<close>

lemma TX0008_loop_acc:
  "TX0008_loop s n acc = acc @ TX0008_loop s n []"
proof (induction "length s" arbitrary: s acc rule: less_induct)
  case less
  show ?case
  proof (cases "s = []")
    case True
    then show ?thesis by (simp add: TX0008_loop.simps)
  next
    case ne: False
    show ?thesis
    proof (cases "hd s \<in> set ''+-''")
      case True
      let ?tok = "take 5 (take (n + 1) s) @ ''.'' @ drop 5 (take (n + 1) s)"
      let ?rest = "drop (n + 1) s"
      have shorter: "length ?rest < length s" using ne by simp
      have a: "TX0008_loop s n acc = TX0008_loop ?rest n (acc @ [?tok])"
        using ne True by (subst TX0008_loop.simps) (simp add: Let_def)
      have b: "TX0008_loop s n [] = TX0008_loop ?rest n [?tok]"
        using ne True by (subst TX0008_loop.simps) (simp add: Let_def)
      have c: "TX0008_loop ?rest n (acc @ [?tok]) = (acc @ [?tok]) @ TX0008_loop ?rest n []"
        by (rule less [OF shorter])
      have d: "TX0008_loop ?rest n [?tok] = [?tok] @ TX0008_loop ?rest n []"
        by (rule less [OF shorter])
      show ?thesis by (simp only: a b c d append_assoc)
    next
      case False
      have shorter: "length (drop 1 s) < length s" using ne by simp
      have a: "TX0008_loop s n acc = TX0008_loop (drop 1 s) n acc"
        using ne False by (subst TX0008_loop.simps) simp
      have b: "TX0008_loop s n [] = TX0008_loop (drop 1 s) n []"
        using ne False by (subst TX0008_loop.simps) simp
      show ?thesis by (simp only: a b less [OF shorter, of acc])
    qed
  qed
qed

lemma decode_Nil: "TX0008_pos_str_to_list [] n = []"
  by (simp add: TX0008_pos_str_to_list_def TX0008_loop.simps)

lemma decode_skip:
  "\<not> is_sign c \<Longrightarrow> TX0008_pos_str_to_list (c # s) n = TX0008_pos_str_to_list s n"
  unfolding TX0008_pos_str_to_list_def
  by (subst TX0008_loop.simps) (simp add: is_sign_def)

lemma decode_sign:
  "is_sign c \<Longrightarrow> TX0008_pos_str_to_list (c # s) n =
     (take 5 (c # take n s) @ ''.'' @ drop 5 (c # take n s)) # TX0008_pos_str_to_list (drop n s) n"
  unfolding TX0008_pos_str_to_list_def
  by (subst TX0008_loop.simps, subst TX0008_loop_acc) (auto simp add: is_sign_def Let_def)

text \<open>
  Claim C3, as stated, puts the point after the fifth digit, so that \<open>+123456\<close> would
  become \<open>+12345.6\<close>. The slice \<open>str_coord[:5]\<close> counts the sign: the decoder returns
  \<open>+1234.56\<close>.
\<close>

theorem decode_point_position_counterexample:
  "TX0008_pos_str_to_list ''+123456'' 6 = [''+1234.56''] \<and>
   TX0008_pos_str_to_list ''+123456'' 6 \<noteq> [''+12345.6'']"
  by (simp add: decode_sign decode_Nil is_sign_def)

text \<open>
  Claim C3, amended: with digit width 6, when the scan is at a \<open>+\<close> or \<open>-\<close>, the sign and
  the next six characters (all that remain, if fewer) form one token, the decimal point is
  put after the fifth character of the token, the sign included, and the scan goes on
  behind the token. For a sign followed by six characters \<open>d1 ... d6\<close> the point thus comes
  after the fourth digit: \<open>sign d1 d2 d3 d4 . d5 d6\<close>.
\<close>

theorem decode_point_after_fifth_character:
  "is_sign c \<longrightarrow>
     TX0008_pos_str_to_list (c # s) 6
       = (take 5 (c # take 6 s) @ ''.'' @ drop 5 (c # take 6 s)) # TX0008_pos_str_to_list (drop 6 s) 6
   \<and> TX0008_pos_str_to_list (c # d1 # d2 # d3 # d4 # d5 # d6 # rest) 6
       = [c, d1, d2, d3, d4, CHR ''.'', d5, d6] # TX0008_pos_str_to_list rest 6"
  by (simp add: decode_sign)

theorem decode_point_after_fifth_character_witness:
  "is_sign (CHR ''-'') \<and>
   TX0008_pos_str_to_list ''-200000|+ 50000|END'' 6 = [''-2000.00'', ''+ 500.00'']"
  using decode_point_after_fifth_character [of "CHR ''-''" "''200000|+ 50000|END''" "CHR ''2''"
      "CHR ''0''" "CHR ''0''" "CHR ''0''" "CHR ''0''" "CHR ''0''" "''|+ 50000|END''"]
  by (simp add: decode_sign decode_skip decode_Nil is_sign_def)

text \<open>
  Claim C4, as stated, has a truncated trailing token dropped. The slices just come out
  shorter: the frame cut after \<open>-20\<close> decodes to two tokens, the second one \<open>-20.\<close>.
\<close>

theorem decode_truncated_token_counterexample:
  "TX0008_pos_str_to_list ''TXRESP|OK|+100000|-20'' 6 = [''+1000.00'', ''-20.'']"
  by (simp add: decode_sign decode_skip decode_Nil is_sign_def)

lemma filter_drop_le: "length (filter P (drop n s)) \<le> length (filter P s)"
proof -
  have "filter P s = filter P (take n s) @ filter P (drop n s)"
    by (metis append_take_drop_id filter_append)
  then show ?thesis by simp
qed

lemma decode_length_le:
  "length (TX0008_pos_str_to_list s n) \<le> length (filter is_sign s)"
proof (induction "length s" arbitrary: s rule: less_induct)
  case less
  show ?case
  proof (cases s)
    case Nil
    then show ?thesis by (simp add: decode_Nil)
  next
    case (Cons c cs)
    show ?thesis
    proof (cases "is_sign c")
      case True
      have "length (TX0008_pos_str_to_list (drop n cs) n) \<le> length (filter is_sign (drop n cs))"
        by (rule less) (simp add: Cons)
      also have "\<dots> \<le> length (filter is_sign cs)" by (rule filter_drop_le)
      finally show ?thesis using True Cons by (simp add: decode_sign)
    next
      case False
      have "length (TX0008_pos_str_to_list cs n) \<le> length (filter is_sign cs)"
        by (rule less) (simp add: Cons)
      then show ?thesis using False Cons by (simp add: decode_skip)
    qed
  qed
qed

text \<open>
  Claim C4, amended: the decoder is a total function of the input string (no branch raises,
  and the scan ends, as the termination proof of \<open>TX0008_loop\<close> shows); a character at the
  scan position that is not \<open>+\<close> or \<open>-\<close> is skipped; a sign followed by fewer than \<open>n\<close>
  characters at the end of the input is not dropped but gives one last, shorter token,
  with the point after at most its first five characters; and there are never more tokens
  than sign characters in the input.
\<close>

theorem decode_lenient:
  "(\<not> is_sign c \<longrightarrow> TX0008_pos_str_to_list (c # s) n = TX0008_pos_str_to_list s n) \<and>
   (is_sign c \<and> length s < n \<longrightarrow>
      TX0008_pos_str_to_list (c # s) n = [take 5 (c # s) @ ''.'' @ drop 5 (c # s)]) \<and>
   length (TX0008_pos_str_to_list s n) \<le> length (filter is_sign s)"
  by (simp add: decode_skip decode_sign decode_Nil decode_length_le)

theorem decode_lenient_witness:
  "\<not> is_sign (CHR ''|'') \<and> is_sign (CHR ''-'') \<and> length ''20'' < (6::nat) \<and>
   TX0008_pos_str_to_list ''|-20'' 6 = [''-20.'']"
  using decode_lenient [of "CHR ''|''" "''-20''" 6] decode_lenient [of "CHR ''-''" "''20''" 6]
  by (simp add: is_sign_def)
section \<open>Properties of the encoder\<close>

lemma str_nat_small: "n < 10 \<Longrightarrow> str_nat n = [digit_char n]"
  by (subst str_nat.simps) simp

lemma str_nat_big: "\<not> n < 10 \<Longrightarrow> str_nat n = str_nat (n div 10) @ [digit_char (n mod 10)]"
  by (subst str_nat.simps) simp

lemma length_str_nat_pos: "0 < length (str_nat n)"
  by (subst str_nat.simps) simp

lemma length_str_nat_le: "(length (str_nat n) \<le> Suc w) = (n < 10 ^ Suc w)"
proof (induction n arbitrary: w rule: str_nat.induct)
  case (1 n)
  show ?case
  proof (cases "n < 10")
    case True
    have "(10::nat) ^ 1 \<le> 10 ^ Suc w"
      by (rule power_increasing) simp_all
    then have "(10::nat) \<le> 10 ^ Suc w"
      by (simp only: power_one_right)
    with True have "n < 10 ^ Suc w"
      by (rule less_le_trans)
    then show ?thesis using True by (simp add: str_nat_small)
  next
    case False
    have len: "length (str_nat n) = Suc (length (str_nat (n div 10)))"
      using False by (simp add: str_nat_big)
    show ?thesis
    proof (cases w)
      case 0
      then show ?thesis using False len length_str_nat_pos [of "n div 10"] by simp
    next
      case (Suc v)
      have "(length (str_nat (n div 10)) \<le> Suc v) = (n div 10 < 10 ^ Suc v)"
        using "1.IH" [OF False] .
      moreover have "(n div 10 < 10 ^ Suc v) = (n < 10 ^ Suc (Suc v))"
        by (simp add: div_less_iff_less_mult)
      ultimately show ?thesis using len Suc by simp
    qed
  qed
qed

lemma length_fmt_d: "0 < w \<Longrightarrow> v < 10 ^ w \<Longrightarrow> length (fmt_d v w) = w"
proof -
  assume "0 < w" and v: "v < 10 ^ w"
  then obtain u where w: "w = Suc u" by (cases w) auto
  have "length (str_nat v) \<le> w" using v unfolding w by (simp only: length_str_nat_le)
  then show ?thesis by (simp add: fmt_d_def)
qed

lemma format_coord_sign:
  "format_coord v N True = (if v \<ge> 0 then CHR ''+'' else CHR ''-'') # fmt_d (nat \<bar>v\<bar>) N"
  by (simp add: format_coord_def)

lemma py_num_format_coord: "py_num n width sign = format_coord n width sign"
  by (simp add: py_num_def format_coord_def)

lemma static_quiet_position:
  "motion_type cfg = ''static'' \<Longrightarrow> noise cfg = 0 \<Longrightarrow> center cfg = (x, y, z) \<Longrightarrow>
     fst (get_position \<lparr>config = cfg, start_time = st\<rparr> w) = (py_int x, py_int y, py_int z)"
  by (simp add: get_position_def time_time_def offset_def random_uniform_def split_def Let_def)

text \<open>
  Claim C1, as stated, has the digits zero-padded, so that 50000 would be encoded as
  \<open>+050000\<close>. The format specification \<open>{width}d\<close> has no fill character and pads with
  spaces: the token is \<open>+ 50000\<close>.
\<close>

theorem format_coord_zero_padding_counterexample:
  "format_coord 50000 6 True = ''+ 50000'' \<and> format_coord 50000 6 True \<noteq> ''+050000''"
  by (simp add: format_coord_def fmt_d_def str_nat_small str_nat_big digit_char_def)

text \<open>
  Claim C1, amended: for every integer whose magnitude fits \<open>N\<close> digits (\<open>N\<close> at least 1), the
  encoder (\<open>format_coord\<close>, and \<open>_num\<close> alike) gives a token of exactly \<open>N + 1\<close> characters:
  \<open>+\<close> if the value is at least 0, else \<open>-\<close>, followed by the decimal digits of the magnitude
  right-aligned in \<open>N\<close> characters, padded on the left with spaces. In particular the static
  target at (100000, -200000, 50000) with noise 0, added to an empty simulator at any
  time and queried at any time, gives the frame \<open>TXRESP|OK|+100000|-200000|+ 50000|END\<close>.
\<close>

theorem format_coord_fixed_width:
  "(0 < N \<and> \<bar>n\<bar> < 10 ^ N \<longrightarrow>
      length (format_coord n N True) = N + 1
    \<and> format_coord n N True
        = (if n \<ge> 0 then CHR ''+'' else CHR ''-'')
            # replicate (N - length (str_nat (nat \<bar>n\<bar>))) (CHR '' '') @ str_nat (nat \<bar>n\<bar>)
    \<and> length (str_nat (nat \<bar>n\<bar>)) \<le> N
    \<and> py_num n N True = format_coord n N True)
   \<and> fst (generate_tx_response
            (fst (add_sphere
                    \<lparr>center = (100000, -200000, 50000), motion_type = ''static'',
                     amplitude = a, frequency = f, phase = p, noise = 0\<rparr>
                    new_SphereSimulator w))
            w')
       = ''TXRESP|OK|+100000|-200000|+ 50000|END''"
proof -
  have tok: "length (format_coord n N True) = N + 1
      \<and> format_coord n N True
          = (if n \<ge> 0 then CHR ''+'' else CHR ''-'')
              # replicate (N - length (str_nat (nat \<bar>n\<bar>))) (CHR '' '') @ str_nat (nat \<bar>n\<bar>)
      \<and> length (str_nat (nat \<bar>n\<bar>)) \<le> N
      \<and> py_num n N True = format_coord n N True"
    if N: "0 < N" and n: "\<bar>n\<bar> < 10 ^ N"
  proof -
    have m: "nat \<bar>n\<bar> < 10 ^ N"
      using n by (simp add: nat_less_iff)
    obtain u where u: "N = Suc u"
      using N by (cases N) auto
    have l: "length (str_nat (nat \<bar>n\<bar>)) \<le> N"
      using m unfolding u by (simp only: length_str_nat_le)
    have "length (fmt_d (nat \<bar>n\<bar>) N) = N"
      using N m by (rule length_fmt_d)
    then have len: "length (format_coord n N True) = N + 1"
      by (simp add: format_coord_sign)
    have shape: "format_coord n N True
          = (if n \<ge> 0 then CHR ''+'' else CHR ''-'')
              # replicate (N - length (str_nat (nat \<bar>n\<bar>))) (CHR '' '') @ str_nat (nat \<bar>n\<bar>)"
      by (simp only: format_coord_sign fmt_d_def)
    show ?thesis
      using len shape l py_num_format_coord [of n N True] by blast
  qed
  have pos: "fst (get_all_positions
                (fst (add_sphere
                    \<lparr>center = (100000, -200000, 50000), motion_type = ''static'',
                     amplitude = a, frequency = f, phase = p, noise = 0\<rparr>
                    new_SphereSimulator w)) w')
             = [(100000, -200000, 50000)]"
    by (simp add: get_all_positions_def add_sphere_def new_SphereSimulator_def
          new_VirtualSphere_def time_time_def split_def Let_def
          static_quiet_position [where x = 100000 and y = "-200000" and z = 50000]
          py_int_def)
  have frame: "tx_envelope (map (\<lambda>c. format_coord c 6 True) [100000, -200000, 50000])
                 = ''TXRESP|OK|+100000|-200000|+ 50000|END''"
    by (simp add: tx_envelope_def format_coord_def fmt_d_def str_nat_small str_nat_big digit_char_def)
  have "fst (generate_tx_response
            (fst (add_sphere
                    \<lparr>center = (100000, -200000, 50000), motion_type = ''static'',
                     amplitude = a, frequency = f, phase = p, noise = 0\<rparr>
                    new_SphereSimulator w))
            w')
       = ''TXRESP|OK|+100000|-200000|+ 50000|END''"
    using frame by (simp add: generate_tx_response_def split_def Let_def pos)
  with tok show ?thesis by blast
qed

theorem format_coord_fixed_width_witness:
  "(0::nat) < 6 \<and> \<bar>- 1234 :: int\<bar> < 10 ^ 6
   \<and> length (format_coord (- 1234) 6 True) = 7
   \<and> format_coord (- 1234) 6 True = ''-  1234''
   \<and> py_num (- 1234) 6 True = ''-  1234''
   \<and> fst (generate_tx_response
            (fst (add_sphere
                    \<lparr>center = (100000, -200000, 50000), motion_type = ''static'',
                     amplitude = 5000, frequency = 0.5, phase = 0, noise = 0\<rparr>
                    new_SphereSimulator still_world))
            still_world)
       = ''TXRESP|OK|+100000|-200000|+ 50000|END''"
proof -
  have s: "str_nat 1234 = ''1234''"
    by (simp add: str_nat_small str_nat_big digit_char_def)
  have r: "replicate 2 (CHR '' '') = ''  ''"
    by (simp add: numeral_2_eq_2)
  show ?thesis
    using format_coord_fixed_width [of 6 "- 1234" 5000 "0.5" 0 still_world still_world]
    by (simp add: s r)
qed

section \<open>Round trip of the codec\<close>

lemma digit_cases: "d < 10 \<Longrightarrow> d \<in> {0, 1, 2, 3, 4, 5, 6, 7, 8, 9::nat}"
  by auto

lemma is_digit_digit_char: "d < 10 \<Longrightarrow> is_digit (digit_char d)"
  using digit_cases [of d] by (auto simp add: digit_char_def is_digit_def)

lemma digit_val_digit_char: "d < 10 \<Longrightarrow> digit_val (digit_char d) = d"
  using digit_cases [of d] by (auto simp add: digit_char_def digit_val_def)

lemma str_nat_digits: "c \<in> set (str_nat n) \<Longrightarrow> is_digit c"
proof (induction n rule: str_nat.induct)
  case (1 n)
  show ?case
  proof (cases "n < 10")
    case True
    with 1(2) show ?thesis by (simp add: str_nat_small is_digit_digit_char)
  next
    case False
    with 1 show ?thesis by (auto simp add: str_nat_big is_digit_digit_char)
  qed
qed

lemma dec_val_snoc: "dec_val (ds @ [c]) = 10 * dec_val ds + digit_val c"
  by (simp add: dec_val_def)

lemma dec_val_str_nat: "dec_val (str_nat n) = n"
proof (induction n rule: str_nat.induct)
  case (1 n)
  show ?case
  proof (cases "n < 10")
    case True
    then show ?thesis by (simp add: str_nat_small dec_val_def digit_val_digit_char)
  next
    case False
    then show ?thesis using "1.IH" by (simp add: str_nat_big dec_val_snoc digit_val_digit_char)
  qed
qed

lemma filter_digits_str_nat: "filter is_digit (str_nat n) = str_nat n"
  by (simp add: str_nat_digits)

lemma filter_digits_fmt_d: "filter is_digit (fmt_d v N) = str_nat v"
  by (simp add: fmt_d_def filter_digits_str_nat is_digit_def)

lemma no_point_fmt_d: "CHR ''.'' \<notin> set (fmt_d v N)"
  using str_nat_digits [of "CHR ''.''" v] by (auto simp add: fmt_d_def is_digit_def)

lemma strip_point_with_point: "CHR ''.'' \<notin> set t \<Longrightarrow> strip_point (with_point t) = t"
proof -
  assume a: "CHR ''.'' \<notin> set t"
  have "filter (\<lambda>c. c \<noteq> CHR ''.'') t = t"
    using a by (induction t) auto
  moreover have "filter (\<lambda>c. c \<noteq> CHR ''.'') (take 5 t) @ filter (\<lambda>c. c \<noteq> CHR ''.'') (drop 5 t)
                   = filter (\<lambda>c. c \<noteq> CHR ''.'') t"
    by (metis append_take_drop_id filter_append)
  ultimately show ?thesis by (simp add: strip_point_def with_point_def)
qed

lemma filter_digits_with_point: "filter is_digit (with_point t) = filter is_digit t"
proof -
  have "filter is_digit (take 5 t) @ filter is_digit (drop 5 t) = filter is_digit t"
    by (metis append_take_drop_id filter_append)
  then show ?thesis by (simp add: with_point_def is_digit_def)
qed

lemma token_int_with_point_format:
  "token_int (with_point (format_coord v N True)) = v"
proof -
  have d: "filter is_digit (with_point (format_coord v N True)) = str_nat (nat \<bar>v\<bar>)"
    by (simp add: filter_digits_with_point format_coord_sign filter_digits_fmt_d is_digit_def)
  have h: "take (Suc 0) (with_point (format_coord v N True)) = [if v \<ge> 0 then CHR ''+'' else CHR ''-'']"
    by (simp add: with_point_def format_coord_sign)
  show ?thesis
    by (simp add: token_int_def d h dec_val_str_nat Let_def)
qed


lemma decode_token:
  assumes "is_sign c" "length body = n"
  shows "TX0008_pos_str_to_list ((c # body) @ rest) n
           = with_point (c # body) # TX0008_pos_str_to_list rest n"
  using assms by (simp add: decode_sign with_point_def)

lemma decode_header: "TX0008_pos_str_to_list (''TXRESP|OK|'' @ s) n = TX0008_pos_str_to_list s n"
  by (simp add: decode_skip is_sign_def)

lemma decode_trailer: "TX0008_pos_str_to_list ''|END'' n = []"
  by (simp add: decode_skip decode_Nil is_sign_def)

lemma decode_bar: "TX0008_pos_str_to_list (''|'' @ s) n = TX0008_pos_str_to_list s n"
  by (simp add: decode_skip is_sign_def)

lemma decode_wellformed:
  "wellformed n t \<Longrightarrow> TX0008_pos_str_to_list (t @ rest) n = with_point t # TX0008_pos_str_to_list rest n"
proof (cases t)
  case Nil
  assume "wellformed n t"
  with Nil show ?thesis by (simp add: wellformed_def)
next
  case (Cons c body)
  assume "wellformed n t"
  with Cons have "is_sign c" and "length body = n"
    by (simp_all add: wellformed_def)
  then show ?thesis unfolding Cons by (rule decode_token)
qed

lemma decode_join:
  "\<forall>t \<in> set toks. wellformed n t \<Longrightarrow>
     TX0008_pos_str_to_list (join ''|'' toks @ ''|END'') n = map with_point toks"
proof (induction "''|''" toks rule: join.induct)
  case 1
  show ?case by (simp add: decode_trailer)
next
  case (2 x)
  then show ?case by (simp add: decode_wellformed decode_trailer)
next
  case (3 x y ys)
  have "TX0008_pos_str_to_list (join ''|'' (x # y # ys) @ ''|END'') n
          = TX0008_pos_str_to_list (x @ (''|'' @ (join ''|'' (y # ys) @ ''|END''))) n"
    by simp
  also have "\<dots> = with_point x # TX0008_pos_str_to_list (''|'' @ (join ''|'' (y # ys) @ ''|END'')) n"
    using 3(2) by (intro decode_wellformed) simp
  also have "\<dots> = with_point x # TX0008_pos_str_to_list (join ''|'' (y # ys) @ ''|END'') n"
    by (simp only: decode_bar)
  also have "\<dots> = with_point x # map with_point (y # ys)"
    using 3 by simp
  finally show ?case by simp
qed

lemma decode_envelope:
  "\<forall>t \<in> set toks. wellformed n t \<Longrightarrow>
     TX0008_pos_str_to_list (tx_envelope toks) n = map with_point toks"
  unfolding tx_envelope_def by (simp only: decode_header decode_join)

lemma wellformed_format_coord:
  "0 < N \<Longrightarrow> \<bar>v\<bar> < 10 ^ N \<Longrightarrow> wellformed N (format_coord v N True)"
proof -
  assume N: "0 < N" and v: "\<bar>v\<bar> < 10 ^ N"
  have "nat \<bar>v\<bar> < 10 ^ N" using v by (simp add: nat_less_iff)
  then have "length (fmt_d (nat \<bar>v\<bar>) N) = N" using N by (simp add: length_fmt_d)
  then show ?thesis by (simp add: wellformed_def format_coord_sign is_sign_def)
qed

lemma decode_encode:
  assumes "0 < N" "\<forall>v \<in> set vals. \<bar>v\<bar> < 10 ^ N"
  shows "TX0008_pos_str_to_list (tx_envelope (map (\<lambda>v. format_coord v N True) vals)) N
           = map (\<lambda>v. with_point (format_coord v N True)) vals"
proof -
  have "\<forall>t \<in> set (map (\<lambda>v. format_coord v N True) vals). wellformed N t"
    using assms by (auto simp add: wellformed_format_coord)
  then show ?thesis by (simp add: decode_envelope comp_def)
qed

lemma no_point_format_coord: "CHR ''.'' \<notin> set (format_coord v N True)"
  using no_point_fmt_d [of "nat \<bar>v\<bar>" N] by (simp add: format_coord_sign)

lemma generate_tx_response_frame:
  "fst (generate_tx_response sim w)
     = tx_envelope (map (\<lambda>c. format_coord c 6 True)
         (concat (map (\<lambda>(x, y, z). [x, y, z]) (fst (get_all_positions sim w)))))"
  by (simp add: generate_tx_response_def split_def Let_def)

text \<open>
  Claim C2: for every list of integers whose magnitudes fit \<open>N\<close> digits (\<open>N\<close> at least 1),
  decoding the frame that the encoder builds from them (the envelope around the tokens of
  \<open>format_coord\<close>, which is what \<open>generate_tx_response\<close> returns at \<open>N = 6\<close>) gives as many
  tokens as there were values; each decoded token with its decimal point removed is the
  encoded token again, and the integer spelled by its sign and digits is the original
  value.
\<close>

theorem codec_round_trip:
  assumes "0 < N" "\<forall>v \<in> set vals. \<bar>v\<bar> < 10 ^ N"
  shows "length (TX0008_pos_str_to_list (tx_envelope (map (\<lambda>v. format_coord v N True) vals)) N)
           = length vals
       \<and> map strip_point (TX0008_pos_str_to_list (tx_envelope (map (\<lambda>v. format_coord v N True) vals)) N)
           = map (\<lambda>v. format_coord v N True) vals
       \<and> map token_int (TX0008_pos_str_to_list (tx_envelope (map (\<lambda>v. format_coord v N True) vals)) N)
           = vals"
  by (simp add: decode_encode [OF assms] comp_def strip_point_with_point no_point_format_coord
        token_int_with_point_format)

theorem codec_round_trip_witness:
  "(0::nat) < 6 \<and> \<bar>100000::int\<bar> < 10 ^ 6 \<and> \<bar>- 200000::int\<bar> < 10 ^ 6 \<and> \<bar>50000::int\<bar> < 10 ^ 6 \<and>
   tx_envelope (map (\<lambda>v. format_coord v 6 True) [100000, -200000, 50000])
     = ''TXRESP|OK|+100000|-200000|+ 50000|END'' \<and>
   TX0008_pos_str_to_list ''TXRESP|OK|+100000|-200000|+ 50000|END'' 6
     = [''+1000.00'', ''-2000.00'', ''+ 500.00''] \<and>
   map token_int [''+1000.00'', ''-2000.00'', ''+ 500.00''] = [100000, -200000, 50000]"
proof -
  have e: "tx_envelope (map (\<lambda>v. format_coord v 6 True) [100000, -200000, 50000])
             = ''TXRESP|OK|+100000|-200000|+ 50000|END''"
    by (simp add: tx_envelope_def format_coord_def fmt_d_def str_nat_small str_nat_big digit_char_def)
  have d: "TX0008_pos_str_to_list ''TXRESP|OK|+100000|-200000|+ 50000|END'' 6
             = [''+1000.00'', ''-2000.00'', ''+ 500.00'']"
    by (simp add: decode_sign decode_skip decode_Nil is_sign_def)
  have h: "(0::nat) < 6"
    by simp
  have f: "\<forall>v \<in> set [100000, -200000, 50000::int]. \<bar>v\<bar> < 10 ^ 6"
    by simp
  show ?thesis
    using codec_round_trip [OF h f] h f unfolding e d by simp
qed

section \<open>Properties of the motion model and the simulator\<close>

text \<open>
  Claim C5 says that a \<open>circle_yz\<close> target traces a circle of radius \<open>amplitude\<close> in the y-z
  plane. The dispatch of \<open>get_position\<close> has branches for \<open>circle_xy\<close> and \<open>circle_xz\<close> but
  none for \<open>circle_yz\<close>, which falls through to the final \<open>else\<close>: for the configuration
  that quick\_test.py builds for this mode (centre at the origin, amplitude 100000,
  frequency 0.5, phase 0), the offset is zero on all three axes at every elapsed time,
  no draw is made, and the point is not at distance \<open>amplitude\<close> from the centre.
\<close>

theorem circle_yz_offset_is_zero:
  "offset \<lparr>center = (0, 0, 0), motion_type = ''circle_yz'', amplitude = 100000,
            frequency = 0.5, phase = 0, noise = 100\<rparr> t w = ((0, 0, 0), w)
   \<and> (case fst (offset \<lparr>center = (0, 0, 0), motion_type = ''circle_yz'', amplitude = 100000,
                        frequency = 0.5, phase = 0, noise = 100\<rparr> t w)
      of (dx, dy, dz) \<Rightarrow> dy\<^sup>2 + dz\<^sup>2 \<noteq> (100000::real)\<^sup>2)"
  by (simp add: offset_def)

lemma length_positions_of: "length (fst (positions_of ss w)) = length ss"
  by (induction ss arbitrary: w) (simp_all add: split_def Let_def)

lemma positions_of_append:
  "positions_of (ss @ ts) w =
     (let (ps, w1) = positions_of ss w; (qs, w2) = positions_of ts w1 in (ps @ qs, w2))"
  by (induction ss arbitrary: w) (simp_all add: split_def Let_def)

lemma positions_of_take:
  "fst (positions_of (take i ss) w) = take i (fst (positions_of ss w))"
proof -
  have "positions_of ss w = positions_of (take i ss @ drop i ss) w"
    by simp
  then have "fst (positions_of ss w)
               = fst (positions_of (take i ss) w)
                 @ fst (positions_of (drop i ss) (snd (positions_of (take i ss) w)))"
    by (simp only: positions_of_append) (simp add: split_def Let_def)
  moreover have "length (fst (positions_of (take i ss) w)) = min (length ss) i"
    by (simp add: length_positions_of)
  ultimately show ?thesis
    by (cases "i \<le> length ss") (simp_all add: min_def length_positions_of)
qed

lemma positions_of_nth:
  assumes "i < length ss"
  shows "fst (positions_of ss w) ! i
           = fst (get_position (ss ! i) (snd (positions_of (take i ss) w)))"
proof -
  have ss: "ss = take i ss @ (ss ! i) # drop (Suc i) ss"
    using assms by (simp add: id_take_nth_drop)
  have "fst (positions_of ss w)
          = fst (positions_of (take i ss) w)
            @ fst (positions_of ((ss ! i) # drop (Suc i) ss) (snd (positions_of (take i ss) w)))"
    by (subst ss, simp only: positions_of_append) (simp add: split_def Let_def)
  moreover have "length (fst (positions_of (take i ss) w)) = i"
    using assms by (simp add: length_positions_of)
  ultimately show ?thesis
    by (simp add: nth_append split_def Let_def)
qed

lemma spheres_add_sphere:
  "spheres (fst (add_sphere cfg sim w))
     = spheres sim @ [\<lparr>config = cfg, start_time = clock w (clock_reads w)\<rparr>]"
  by (simp add: add_sphere_def new_VirtualSphere_def time_time_def)

lemma spheres_add_spheres_prefix:
  "take (length (spheres sim)) (spheres (fst (add_spheres cfgs sim w))) = spheres sim
   \<and> map config (spheres (fst (add_spheres cfgs sim w))) = map config (spheres sim) @ cfgs"
proof (induction cfgs arbitrary: sim w)
  case Nil
  show ?case by simp
next
  case (Cons cfg cfgs)
  let ?sim1 = "fst (add_sphere cfg sim w)"
  let ?w1 = "snd (add_sphere cfg sim w)"
  have step: "add_spheres (cfg # cfgs) sim w = add_spheres cfgs ?sim1 ?w1"
    by (simp add: split_def Let_def)
  have s1: "spheres ?sim1 = spheres sim @ [\<lparr>config = cfg, start_time = clock w (clock_reads w)\<rparr>]"
    by (rule spheres_add_sphere)
  from Cons [of ?sim1 ?w1]
  have a: "take (length (spheres ?sim1)) (spheres (fst (add_spheres cfgs ?sim1 ?w1))) = spheres ?sim1"
    and b: "map config (spheres (fst (add_spheres cfgs ?sim1 ?w1))) = map config (spheres ?sim1) @ cfgs"
    by simp_all
  have "take (length (spheres sim)) (spheres (fst (add_spheres cfgs ?sim1 ?w1)))
          = take (length (spheres sim)) (take (length (spheres ?sim1)) (spheres (fst (add_spheres cfgs ?sim1 ?w1))))"
    by (simp add: s1 min_def)
  also have "\<dots> = spheres sim"
    by (simp only: a) (simp add: s1)
  finally have c: "take (length (spheres sim)) (spheres (fst (add_spheres cfgs ?sim1 ?w1)))
                    = spheres sim" .
  show ?case
    unfolding step using b c by (simp add: s1)
qed

text \<open>
  Claim C8: after any sequence of \<open>add_sphere\<close> calls on a new simulator (made at any
  times), a query at any time returns exactly one position per added target, and the
  targets are held in the order they were added. Adding more targets to any simulator
  leaves the targets already there at their indices, and leaves the positions a query
  reports at those indices as they would be without the later targets. The position at
  index \<open>i\<close> is the position of the \<open>i\<close>-th target, computed in the world left by the
  visits to the targets before it.
\<close>

theorem index_stability:
  "length (fst (get_all_positions (fst (add_spheres cfgs new_SphereSimulator w)) w')) = length cfgs
   \<and> map config (spheres (fst (add_spheres cfgs new_SphereSimulator w))) = cfgs
   \<and> take (length (spheres sim)) (spheres (fst (add_spheres later sim w))) = spheres sim
   \<and> take (length (spheres sim)) (fst (get_all_positions (fst (add_spheres later sim w)) w'))
       = fst (get_all_positions sim w')
   \<and> (i < length (spheres sim) \<longrightarrow>
        fst (get_all_positions sim w') ! i
          = fst (get_position (spheres sim ! i) (snd (positions_of (take i (spheres sim)) w'))))"
proof -
  have order: "map config (spheres (fst (add_spheres cfgs new_SphereSimulator w))) = cfgs"
    using spheres_add_spheres_prefix [of new_SphereSimulator cfgs w]
    by (simp add: new_SphereSimulator_def)
  have "length (fst (get_all_positions (fst (add_spheres cfgs new_SphereSimulator w)) w'))
          = length (map config (spheres (fst (add_spheres cfgs new_SphereSimulator w))))"
    by (simp add: get_all_positions_def length_positions_of)
  then have count:
    "length (fst (get_all_positions (fst (add_spheres cfgs new_SphereSimulator w)) w')) = length cfgs"
    by (simp only: order)
  have keep: "take (length (spheres sim)) (spheres (fst (add_spheres later sim w))) = spheres sim"
    using spheres_add_spheres_prefix [of sim later w] by simp
  have "take (length (spheres sim)) (fst (get_all_positions (fst (add_spheres later sim w)) w'))
          = fst (positions_of (take (length (spheres sim)) (spheres (fst (add_spheres later sim w)))) w')"
    by (simp only: get_all_positions_def positions_of_take)
  then have same:
    "take (length (spheres sim)) (fst (get_all_positions (fst (add_spheres later sim w)) w'))
       = fst (get_all_positions sim w')"
    by (simp only: keep get_all_positions_def)
  have nth: "i < length (spheres sim) \<longrightarrow>
        fst (get_all_positions sim w') ! i
          = fst (get_position (spheres sim ! i) (snd (positions_of (take i (spheres sim)) w')))"
    by (simp add: get_all_positions_def positions_of_nth)
  from count order keep same nth show ?thesis
    by blast
qed

theorem index_stability_witness:
  "(1::nat) < length (spheres (fst (add_spheres
        [static_quiet (1, 2, 3), static_quiet (4, 5, 6), static_quiet (7, 8, 9)]
        new_SphereSimulator still_world)))
   \<and> fst (get_all_positions (fst (add_spheres
        [static_quiet (1, 2, 3), static_quiet (4, 5, 6), static_quiet (7, 8, 9)]
        new_SphereSimulator still_world)) still_world)
      = [(1, 2, 3), (4, 5, 6), (7, 8, 9)]
   \<and> fst (get_position (spheres (fst (add_spheres
        [static_quiet (1, 2, 3), static_quiet (4, 5, 6), static_quiet (7, 8, 9)]
        new_SphereSimulator still_world)) ! 1)
        (snd (positions_of (take 1 (spheres (fst (add_spheres
        [static_quiet (1, 2, 3), static_quiet (4, 5, 6), static_quiet (7, 8, 9)]
        new_SphereSimulator still_world)))) still_world)))
      = (4, 5, 6)"
proof -
  let ?sim = "fst (add_spheres
        [static_quiet (1, 2, 3), static_quiet (4, 5, 6), static_quiet (7, 8, 9)]
        new_SphereSimulator still_world)"
  have sp: "spheres ?sim =
      [\<lparr>config = static_quiet (1, 2, 3), start_time = 0\<rparr>,
       \<lparr>config = static_quiet (4, 5, 6), start_time = 0\<rparr>,
       \<lparr>config = static_quiet (7, 8, 9), start_time = 0\<rparr>]"
    by (simp add: add_sphere_def new_VirtualSphere_def time_time_def new_SphereSimulator_def
          still_world_def split_def Let_def)
  have q: "fst (get_position \<lparr>config = static_quiet (x, y, z), start_time = 0\<rparr> w)
             = (py_int x, py_int y, py_int z)" for x y z w
    by (rule static_quiet_position) (simp_all add: static_quiet_def)
  have ps: "fst (get_all_positions ?sim still_world) = [(1, 2, 3), (4, 5, 6), (7, 8, 9)]"
    unfolding get_all_positions_def sp by (simp add: split_def Let_def q py_int_def)
  have len: "(1::nat) < length (spheres ?sim)"
    unfolding sp by simp
  from index_stability [of "[static_quiet (1, 2, 3), static_quiet (4, 5, 6), static_quiet (7, 8, 9)]"
      still_world still_world ?sim "[]" 1] len
  have "fst (get_all_positions ?sim still_world) ! 1
          = fst (get_position (spheres ?sim ! 1) (snd (positions_of (take 1 (spheres ?sim)) still_world)))"
    by blast
  then have "fst (get_position (spheres ?sim ! 1) (snd (positions_of (take 1 (spheres ?sim)) still_world)))
          = (4, 5, 6)"
    unfolding ps by simp
  with len ps show ?thesis
    by blast
qed

lemma clear_then_positions: "get_all_positions (clear sim) w = ([], w)"
  by (simp add: clear_def get_all_positions_def)

section \<open>Properties of the scheduler\<close>

lemma one_shot_is_pressed: "one_shot is_pressed"
  by (simp add: one_shot_def is_pressed_def Let_def)

lemma one_shot_is_pressed_flexible: "one_shot is_pressed_flexible"
  by (simp add: one_shot_def is_pressed_flexible_def Let_def)

lemma answers_at_Nil: "answers_at t [] = []"
  by (simp add: answers_at_def)

lemma answers_at_Cons:
  "answers_at t ((t1, key, r) # entries)
     = (if t1 = t then r # answers_at t entries else answers_at t entries)"
  by (simp add: answers_at_def)

lemma fired_stays_silent:
  "t \<in> fired m \<Longrightarrow> one_shot q \<Longrightarrow> True \<notin> set (answers_at t (run q es m))"
proof (induction es arbitrary: m)
  case Nil
  show ?case by (simp add: answers_at_Nil)
next
  case (Cons e es)
  show ?case
  proof (cases e)
    case (Query key)
    have spec: "fst (q key m) = (schedule m (tick m) = Some key \<and> tick m \<notin> fired m)"
      and f: "fired (snd (q key m)) = (if fst (q key m) then insert (tick m) (fired m) else fired m)"
      using Cons.prems(2) by (simp_all add: one_shot_def)
    have "t \<in> fired (snd (q key m))"
      using Cons.prems(1) f by simp
    then have rest: "True \<notin> set (answers_at t (run q es (snd (q key m))))"
      using Cons.IH Cons.prems(2) by blast
    have "tick m = t \<Longrightarrow> \<not> fst (q key m)"
      using spec Cons.prems(1) by simp
    then show ?thesis
      using Query rest by (auto simp add: split_def Let_def answers_at_Cons)
  next
    case Advance
    have "t \<in> fired (advance m)"
      using Cons.prems(1) by (simp add: advance_def)
    then show ?thesis
      using Advance Cons.IH [of "advance m"] Cons.prems(2) by simp
  qed
qed

lemma count_True_none: "True \<notin> set bs \<Longrightarrow> length (filter (\<lambda>b. b) bs) = 0"
  by (induction bs) auto

lemma at_most_once:
  "one_shot q \<Longrightarrow> length (filter (\<lambda>b. b) (answers_at t (run q es m))) \<le> 1"
proof (induction es arbitrary: m)
  case Nil
  show ?case by (simp add: answers_at_Nil)
next
  case (Cons e es)
  show ?case
  proof (cases e)
    case (Query key)
    have f: "fired (snd (q key m)) = (if fst (q key m) then insert (tick m) (fired m) else fired m)"
      using Cons.prems by (simp add: one_shot_def)
    show ?thesis
    proof (cases "tick m = t \<and> fst (q key m)")
      case True
      then have "t \<in> fired (snd (q key m))"
        using f by simp
      then have "True \<notin> set (answers_at t (run q es (snd (q key m))))"
        using Cons.prems by (rule fired_stays_silent)
      then have "length (filter (\<lambda>b. b) (answers_at t (run q es (snd (q key m))))) = 0"
        by (rule count_True_none)
      then show ?thesis
        using Query True by (simp add: split_def Let_def answers_at_Cons)
    next
      case False
      have "length (filter (\<lambda>b. b) (answers_at t (run q es (snd (q key m))))) \<le> 1"
        using Cons.IH Cons.prems by blast
      then show ?thesis
        using Query False by (auto simp add: split_def Let_def answers_at_Cons)
    qed
  next
    case Advance
    then show ?thesis
      using Cons.IH [of "advance m"] Cons.prems by simp
  qed
qed

lemma queries_after_fire:
  "tick m \<in> fired m \<Longrightarrow> one_shot q \<Longrightarrow>
     map (\<lambda>(t1, key, r). r) (run q (map Query keys) m) = replicate (length keys) False"
proof (induction keys arbitrary: m)
  case Nil
  show ?case by simp
next
  case (Cons key keys)
  have spec: "fst (q key m) = (schedule m (tick m) = Some key \<and> tick m \<notin> fired m)"
    and t: "tick (snd (q key m)) = tick m"
    and f: "fired (snd (q key m)) = (if fst (q key m) then insert (tick m) (fired m) else fired m)"
    using Cons.prems(2) by (simp_all add: one_shot_def)
  have no: "\<not> fst (q key m)"
    using spec Cons.prems(1) by simp
  have "tick (snd (q key m)) \<in> fired (snd (q key m))"
    using t f no Cons.prems(1) by simp
  then have "map (\<lambda>(t1, key, r). r) (run q (map Query keys) (snd (q key m)))
               = replicate (length keys) False"
    using Cons.IH Cons.prems(2) by blast
  then show ?case
    using no by (simp add: split_def Let_def)
qed


lemma state_after_append:
  "state_after q (es @ fs) m = state_after q fs (state_after q es m)"
  by (induction q es m rule: state_after.induct) simp_all

lemma fired_bounded:
  "one_shot q \<Longrightarrow> fired m \<subseteq> {..tick m} \<Longrightarrow>
     fired (state_after q es m) \<subseteq> {..tick (state_after q es m)}
     \<and> schedule (state_after q es m) = schedule m"
proof (induction es arbitrary: m)
  case Nil
  then show ?case by simp
next
  case (Cons e es)
  show ?case
  proof (cases e)
    case (Query key)
    have t: "tick (snd (q key m)) = tick m"
      and s: "schedule (snd (q key m)) = schedule m"
      and f: "fired (snd (q key m)) = (if fst (q key m) then insert (tick m) (fired m) else fired m)"
      using Cons.prems(1) by (simp_all add: one_shot_def)
    have "fired (snd (q key m)) \<subseteq> {..tick (snd (q key m))}"
      using Cons.prems(2) by (simp add: t f)
    from Cons.IH [OF Cons.prems(1) this] show ?thesis
      using Query s by simp
  next
    case Advance
    have "fired (advance m) \<subseteq> {..tick (advance m)}"
      using Cons.prems(2) by (auto simp add: advance_def)
    from Cons.IH [OF Cons.prems(1) this] show ?thesis
      using Advance by (simp add: advance_def)
  qed
qed

lemma fresh_tick_fires:
  assumes "one_shot q"
    and "sched (tick (state_after q (es @ [Advance]) (new_KeyboardMock sched))) = Some key"
  shows "fst (q key (state_after q (es @ [Advance]) (new_KeyboardMock sched)))"
proof -
  let ?m = "state_after q es (new_KeyboardMock sched)"
  have "fired (new_KeyboardMock sched) \<subseteq> {..tick (new_KeyboardMock sched)}"
    by (simp add: new_KeyboardMock_def)
  from fired_bounded [OF assms(1) this, of es]
  have b: "fired ?m \<subseteq> {..tick ?m}" and s: "schedule ?m = sched"
    by (simp_all add: new_KeyboardMock_def)
  have a: "state_after q (es @ [Advance]) (new_KeyboardMock sched) = advance ?m"
    by (simp add: state_after_append)
  have "tick (advance ?m) \<notin> fired (advance ?m)"
    using b by (auto simp add: advance_def)
  moreover have "schedule (advance ?m) (tick (advance ?m)) = Some key"
    using assms(2) s by (simp add: a) (simp add: advance_def)
  ultimately show ?thesis
    using assms(1) unfolding a by (simp add: one_shot_def)
qed


text \<open>
  Claim C6: in every run of queries and tick advances, from any state of the scheduler,
  at most one query made while the tick is \<open>t\<close> is answered true (for the method of
  sim\_runner.py and for that of sim\_runner\_flexible.py). When the tick maps to \<open>key\<close>
  and has not fired, the query for \<open>key\<close> is answered true, marks the tick as fired and
  leaves the tick counter alone, and every query after it at that tick, for any keys, is
  answered false. A tick has not fired when the scheduler is new or the tick was just
  advanced, whatever happened before: the first query for the event mapped there is
  answered true.
\<close>

theorem single_fire:
  "length (filter (\<lambda>b. b) (answers_at t (run is_pressed es m))) \<le> 1
   \<and> length (filter (\<lambda>b. b) (answers_at t (run is_pressed_flexible es m))) \<le> 1
   \<and> (schedule m (tick m) = Some key \<and> tick m \<notin> fired m \<longrightarrow>
        fst (is_pressed key m)
      \<and> fired (snd (is_pressed key m)) = insert (tick m) (fired m)
      \<and> tick (snd (is_pressed key m)) = tick m
      \<and> map (\<lambda>(t1, k, r). r) (run is_pressed (map Query keys) (snd (is_pressed key m)))
          = replicate (length keys) False
      \<and> fst (is_pressed_flexible key m)
      \<and> fired (snd (is_pressed_flexible key m)) = insert (tick m) (fired m)
      \<and> tick (snd (is_pressed_flexible key m)) = tick m
      \<and> map (\<lambda>(t1, k, r). r)
            (run is_pressed_flexible (map Query keys) (snd (is_pressed_flexible key m)))
          = replicate (length keys) False)
   \<and> (sched (tick (state_after is_pressed (es0 @ [Advance]) (new_KeyboardMock sched))) = Some key \<longrightarrow>
        fst (is_pressed key (state_after is_pressed (es0 @ [Advance]) (new_KeyboardMock sched))))
   \<and> (sched (tick (state_after is_pressed_flexible (es0 @ [Advance]) (new_KeyboardMock sched)))
          = Some key \<longrightarrow>
        fst (is_pressed_flexible key
               (state_after is_pressed_flexible (es0 @ [Advance]) (new_KeyboardMock sched))))
   \<and> (sched 0 = Some key \<longrightarrow>
        fst (is_pressed key (new_KeyboardMock sched))
      \<and> fst (is_pressed_flexible key (new_KeyboardMock sched)))"
proof -
  have a: "length (filter (\<lambda>b. b) (answers_at t (run is_pressed es m))) \<le> 1"
    using one_shot_is_pressed by (rule at_most_once)
  have b: "length (filter (\<lambda>b. b) (answers_at t (run is_pressed_flexible es m))) \<le> 1"
    using one_shot_is_pressed_flexible by (rule at_most_once)
  have c: "fst (is_pressed key m)
      \<and> fired (snd (is_pressed key m)) = insert (tick m) (fired m)
      \<and> tick (snd (is_pressed key m)) = tick m
      \<and> map (\<lambda>(t1, k, r). r) (run is_pressed (map Query keys) (snd (is_pressed key m)))
          = replicate (length keys) False"
    if h: "schedule m (tick m) = Some key \<and> tick m \<notin> fired m"
  proof -
    have st: "is_pressed key m
                = (True, m\<lparr>fired := insert (tick m) (fired m),
                            history := history m @ [(tick m, key)]\<rparr>)"
      using h by (simp add: is_pressed_def)
    have "tick (snd (is_pressed key m)) \<in> fired (snd (is_pressed key m))"
      by (simp add: st)
    then have "map (\<lambda>(t1, k, r). r) (run is_pressed (map Query keys) (snd (is_pressed key m)))
          = replicate (length keys) False"
      using one_shot_is_pressed by (rule queries_after_fire)
    then show ?thesis
      by (simp add: st)
  qed
  have d: "fst (is_pressed_flexible key m)
      \<and> fired (snd (is_pressed_flexible key m)) = insert (tick m) (fired m)
      \<and> tick (snd (is_pressed_flexible key m)) = tick m
      \<and> map (\<lambda>(t1, k, r). r)
            (run is_pressed_flexible (map Query keys) (snd (is_pressed_flexible key m)))
          = replicate (length keys) False"
    if h: "schedule m (tick m) = Some key \<and> tick m \<notin> fired m"
  proof -
    have st: "is_pressed_flexible key m = (True, m\<lparr>fired := insert (tick m) (fired m)\<rparr>)"
      using h by (simp add: is_pressed_flexible_def)
    have "tick (snd (is_pressed_flexible key m)) \<in> fired (snd (is_pressed_flexible key m))"
      by (simp add: st)
    then have "map (\<lambda>(t1, k, r). r)
            (run is_pressed_flexible (map Query keys) (snd (is_pressed_flexible key m)))
          = replicate (length keys) False"
      using one_shot_is_pressed_flexible by (rule queries_after_fire)
    then show ?thesis
      by (simp add: st)
  qed
  have e: "fst (is_pressed key (state_after is_pressed (es0 @ [Advance]) (new_KeyboardMock sched)))"
    if "sched (tick (state_after is_pressed (es0 @ [Advance]) (new_KeyboardMock sched))) = Some key"
    using one_shot_is_pressed that by (rule fresh_tick_fires)
  have f: "fst (is_pressed_flexible key
               (state_after is_pressed_flexible (es0 @ [Advance]) (new_KeyboardMock sched)))"
    if "sched (tick (state_after is_pressed_flexible (es0 @ [Advance]) (new_KeyboardMock sched)))
          = Some key"
    using one_shot_is_pressed_flexible that by (rule fresh_tick_fires)
  have g: "fst (is_pressed key (new_KeyboardMock sched))
      \<and> fst (is_pressed_flexible key (new_KeyboardMock sched))"
    if "sched 0 = Some key"
    using that by (simp add: is_pressed_def is_pressed_flexible_def new_KeyboardMock_def)
  from a b c d e f g show ?thesis
    by blast
qed

theorem single_fire_witness:
  "schedule at_tick_5 (tick at_tick_5) = Some ''c'' \<and> tick at_tick_5 \<notin> fired at_tick_5
   \<and> tick at_tick_5 = 5
   \<and> map (\<lambda>(t1, k, r). r) (run is_pressed [Query ''c'', Query ''c''] at_tick_5) = [True, False]
   \<and> map (\<lambda>(t1, k, r). r) (run is_pressed_flexible [Query ''c'', Query ''c''] at_tick_5)
       = [True, False]
   \<and> map (\<lambda>(t1, k, r). r) (run is_pressed [Query ''c'', Query ''e'', Query ''c''] at_tick_5)
       = [True, False, False]"
proof -
  have h: "schedule at_tick_5 (tick at_tick_5) = Some ''c'' \<and> tick at_tick_5 \<notin> fired at_tick_5"
    by (simp add: at_tick_5_def new_KeyboardMock_def advance_def)
  have t: "tick at_tick_5 = 5"
    by (simp add: at_tick_5_def new_KeyboardMock_def advance_def)
  note one = single_fire [of 5 "[]" at_tick_5 "''c''" "[''c'']"]
  note two = single_fire [of 5 "[]" at_tick_5 "''c''" "[''e'', ''c'']"]
  have a: "fst (is_pressed ''c'' at_tick_5)" and b: "fst (is_pressed_flexible ''c'' at_tick_5)"
    using one h by blast+
  have r1: "map (\<lambda>(t1, k, r). r) (run is_pressed (map Query [''c'']) (snd (is_pressed ''c'' at_tick_5)))
             = replicate (length [''c'']) False"
    using one h by blast
  have r2: "map (\<lambda>(t1, k, r). r)
              (run is_pressed_flexible (map Query [''c'']) (snd (is_pressed_flexible ''c'' at_tick_5)))
             = replicate (length [''c'']) False"
    using one h by blast
  have r3: "map (\<lambda>(t1, k, r). r)
              (run is_pressed (map Query [''e'', ''c'']) (snd (is_pressed ''c'' at_tick_5)))
             = replicate (length [''e'', ''c'']) False"
    using two h by blast
  have s1: "map (\<lambda>(t1, k, r). r) (run is_pressed [Query ''c'', Query ''c''] at_tick_5) = [True, False]"
    using a r1 by (simp add: split_def Let_def)
  have s2: "map (\<lambda>(t1, k, r). r) (run is_pressed_flexible [Query ''c'', Query ''c''] at_tick_5)
              = [True, False]"
    using b r2 by (simp add: split_def Let_def)
  have s3: "map (\<lambda>(t1, k, r). r) (run is_pressed [Query ''c'', Query ''e'', Query ''c''] at_tick_5)
              = [True, False, False]"
    using a r3 by (simp add: split_def Let_def)
  from h t s1 s2 s3 show ?thesis
    by blast
qed

text \<open>
  Claim C10: when the tick maps to \<open>key\<close>, a query for any other key is answered false and
  returns the scheduler unchanged (tick counter, fired set, schedule and history), so a
  later query for \<open>key\<close> at the same tick is answered as if the other query had not been
  made: true, when the tick has not fired yet.
\<close>

theorem mismatch_keeps_event:
  "schedule m (tick m) = Some key \<and> other \<noteq> key \<longrightarrow>
      is_pressed other m = (False, m)
    \<and> is_pressed_flexible other m = (False, m)
    \<and> is_pressed key (snd (is_pressed other m)) = is_pressed key m
    \<and> is_pressed_flexible key (snd (is_pressed_flexible other m)) = is_pressed_flexible key m
    \<and> (tick m \<notin> fired m \<longrightarrow>
          fst (is_pressed key (snd (is_pressed other m)))
        \<and> fst (is_pressed_flexible key (snd (is_pressed_flexible other m))))"
  by (auto simp add: is_pressed_def is_pressed_flexible_def)

theorem mismatch_keeps_event_witness:
  "schedule at_tick_5 (tick at_tick_5) = Some ''c'' \<and> ''e'' \<noteq> ''c''
   \<and> tick at_tick_5 \<notin> fired at_tick_5
   \<and> is_pressed ''e'' at_tick_5 = (False, at_tick_5)
   \<and> fst (is_pressed ''c'' (snd (is_pressed ''e'' at_tick_5)))
   \<and> map (\<lambda>(t1, k, r). r) (run is_pressed [Query ''e'', Query ''c''] at_tick_5) = [False, True]"
proof -
  have h: "schedule at_tick_5 (tick at_tick_5) = Some ''c'' \<and> ''e'' \<noteq> ''c''"
    by (simp add: at_tick_5_def new_KeyboardMock_def advance_def)
  have n: "tick at_tick_5 \<notin> fired at_tick_5"
    by (simp add: at_tick_5_def new_KeyboardMock_def advance_def)
  note m = mismatch_keeps_event [of at_tick_5 "''c''" "''e''"]
  have a: "is_pressed ''e'' at_tick_5 = (False, at_tick_5)"
    using m h by blast
  have b: "fst (is_pressed ''c'' (snd (is_pressed ''e'' at_tick_5)))"
    using m h n by blast
  have "map (\<lambda>(t1, k, r). r) (run is_pressed [Query ''e'', Query ''c''] at_tick_5) = [False, True]"
    using b by (simp add: a split_def Let_def)
  with h n a b show ?thesis
    by blast
qed

section \<open>Properties of the renderer\<close>

lemma length_frame_body:
  "length (concat (map (\<lambda>line. [clear_eol, line @ newline]) lines)) = 2 * length lines"
  by (induction lines) simp_all

lemma enabled_after_calls: "enabled self \<Longrightarrow> enabled (after_calls calls self)"
proof (induction calls arbitrary: self)
  case Nil
  then show ?case by simp
next
  case (Cons call calls)
  then show ?case
    by (cases call) (simp_all add: update_def clear_and_reset_def Let_def)
qed

lemma update_enabled:
  "enabled self \<Longrightarrow>
     update lines self
       = ([cursor_home] @ concat (map (\<lambda>line. [clear_eol, line @ newline]) lines)
            @ (if length lines < length (last_lines self)
               then replicate (length (last_lines self) - length lines) (clear_eol @ newline)
               else []),
          self\<lparr>last_lines := lines\<rparr>)"
  by (simp add: update_def Let_def)

lemma drop_frame_tail:
  "drop (1 + 2 * length lines)
     ([cursor_home] @ concat (map (\<lambda>line. [clear_eol, line @ newline]) lines) @ rest) = rest"
proof -
  have "length ([cursor_home] @ concat (map (\<lambda>line. [clear_eol, line @ newline]) lines))
          = 1 + 2 * length lines"
    by (simp add: length_frame_body)
  then have "drop (1 + 2 * length lines)
               (([cursor_home] @ concat (map (\<lambda>line. [clear_eol, line @ newline]) lines)) @ rest)
             = rest"
    by (metis append_eq_conv_conj)
  then show ?thesis
    by (simp only: append_assoc)
qed

text \<open>
  Claim C7: for every previous frame and every new frame with fewer lines, \<open>update\<close> writes
  the cursor-home escape, then for each new line a clear-to-end-of-line escape and the
  line, and after these exactly (previous length minus new length) clear-to-end-of-line
  escapes, each with its newline, and nothing else; the new frame is then the stored
  previous frame. This holds for the method of sim\_runner.py on the display that rendered
  the previous frame after any earlier calls since its creation, and for the reader's
  method on any display.
\<close>

theorem update_shrinking_frame:
  "length lines < length previous \<longrightarrow>
      fst (update lines (snd (update previous (after_calls calls new_SmoothDisplay))))
        = [cursor_home] @ concat (map (\<lambda>line. [clear_eol, line @ newline]) lines)
            @ replicate (length previous - length lines) (clear_eol @ newline)
    \<and> drop (1 + 2 * length lines)
          (fst (update lines (snd (update previous (after_calls calls new_SmoothDisplay)))))
        = replicate (length previous - length lines) (clear_eol @ newline)
    \<and> last_lines (snd (update lines (snd (update previous (after_calls calls new_SmoothDisplay)))))
        = lines
    \<and> fst (update_reader lines (self\<lparr>last_lines := previous\<rparr>))
        = [cursor_home] @ concat (map (\<lambda>line. [clear_eol, line @ newline]) lines)
            @ replicate (length previous - length lines) (clear_eol @ newline)
    \<and> drop (1 + 2 * length lines) (fst (update_reader lines (self\<lparr>last_lines := previous\<rparr>)))
        = replicate (length previous - length lines) (clear_eol @ newline)
    \<and> last_lines (snd (update_reader lines (self\<lparr>last_lines := previous\<rparr>))) = lines"
proof
  assume shorter: "length lines < length previous"
  let ?body = "concat (map (\<lambda>line. [clear_eol, line @ newline]) lines)"
  let ?tail = "replicate (length previous - length lines) (clear_eol @ newline)"
  let ?base = "after_calls calls new_SmoothDisplay"
  let ?disp = "snd (update previous ?base)"
  have "enabled new_SmoothDisplay"
    by (simp add: new_SmoothDisplay_def)
  then have e0: "enabled ?base"
    by (rule enabled_after_calls)
  have d: "?disp = ?base\<lparr>last_lines := previous\<rparr>"
    by (simp add: update_enabled [OF e0])
  have e: "enabled ?disp"
    using e0 by (simp add: d)
  have u: "update lines ?disp = ([cursor_home] @ ?body @ ?tail, ?disp\<lparr>last_lines := lines\<rparr>)"
    using shorter by (simp add: update_enabled [OF e]) (simp add: d)
  have out: "fst (update lines ?disp) = [cursor_home] @ ?body @ ?tail"
    by (simp only: u fst_conv)
  have trail: "drop (1 + 2 * length lines) (fst (update lines ?disp)) = ?tail"
    by (simp only: out drop_frame_tail)
  have keep: "last_lines (snd (update lines ?disp)) = lines"
    by (simp add: u)
  have rout: "fst (update_reader lines (self\<lparr>last_lines := previous\<rparr>))
                = [cursor_home] @ ?body @ ?tail"
    using shorter by (simp add: update_reader_def Let_def)
  have rtrail: "drop (1 + 2 * length lines) (fst (update_reader lines (self\<lparr>last_lines := previous\<rparr>)))
                  = ?tail"
    by (simp only: rout drop_frame_tail)
  have rkeep: "last_lines (snd (update_reader lines (self\<lparr>last_lines := previous\<rparr>))) = lines"
    by (simp add: update_reader_def Let_def)
  from out trail keep rout rtrail rkeep
  show "fst (update lines ?disp) = [cursor_home] @ ?body @ ?tail
    \<and> drop (1 + 2 * length lines) (fst (update lines ?disp)) = ?tail
    \<and> last_lines (snd (update lines ?disp)) = lines
    \<and> fst (update_reader lines (self\<lparr>last_lines := previous\<rparr>)) = [cursor_home] @ ?body @ ?tail
    \<and> drop (1 + 2 * length lines) (fst (update_reader lines (self\<lparr>last_lines := previous\<rparr>)))
        = ?tail
    \<and> last_lines (snd (update_reader lines (self\<lparr>last_lines := previous\<rparr>))) = lines"
    by blast
qed

theorem update_shrinking_frame_witness:
  "length [''x'', ''y''] < length [''a'', ''b'', ''c'', ''d'', ''e'']
   \<and> fst (update [''x'', ''y''] (snd (update [''a'', ''b'', ''c'', ''d'', ''e''] new_SmoothDisplay)))
       = [cursor_home, clear_eol, ''x'' @ newline, clear_eol, ''y'' @ newline,
          clear_eol @ newline, clear_eol @ newline, clear_eol @ newline]
   \<and> last_lines (snd (update [''x'', ''y''] (snd (update [''a'', ''b'', ''c'', ''d'', ''e''] new_SmoothDisplay))))
       = [''x'', ''y'']
   \<and> fst (update_reader [''x'', ''y''] (new_SmoothDisplay\<lparr>last_lines := [''a'', ''b'', ''c'', ''d'', ''e'']\<rparr>))
       = [cursor_home, clear_eol, ''x'' @ newline, clear_eol, ''y'' @ newline,
          clear_eol @ newline, clear_eol @ newline, clear_eol @ newline]"
proof -
  have h: "length [''x'', ''y''] < length [''a'', ''b'', ''c'', ''d'', ''e'']"
    by simp
  have three: "length [''a'', ''b'', ''c'', ''d'', ''e''] - length [''x'', ''y''] = Suc (Suc (Suc 0))"
    by simp
  note u = update_shrinking_frame [of "[''x'', ''y'']" "[''a'', ''b'', ''c'', ''d'', ''e'']" "[]"
      new_SmoothDisplay]
  have "fst (update [''x'', ''y''] (snd (update [''a'', ''b'', ''c'', ''d'', ''e''] (after_calls [] new_SmoothDisplay))))
          = [cursor_home] @ concat (map (\<lambda>line. [clear_eol, line @ newline]) [''x'', ''y''])
              @ replicate (length [''a'', ''b'', ''c'', ''d'', ''e''] - length [''x'', ''y'']) (clear_eol @ newline)"
    using u h by blast
  then have out: "fst (update [''x'', ''y''] (snd (update [''a'', ''b'', ''c'', ''d'', ''e''] new_SmoothDisplay)))
          = [cursor_home, clear_eol, ''x'' @ newline, clear_eol, ''y'' @ newline,
             clear_eol @ newline, clear_eol @ newline, clear_eol @ newline]"
    unfolding three by simp
  have "last_lines (snd (update [''x'', ''y''] (snd (update [''a'', ''b'', ''c'', ''d'', ''e''] (after_calls [] new_SmoothDisplay)))))
          = [''x'', ''y'']"
    using u h by blast
  then have keep: "last_lines (snd (update [''x'', ''y''] (snd (update [''a'', ''b'', ''c'', ''d'', ''e''] new_SmoothDisplay))))
          = [''x'', ''y'']"
    by simp
  have "fst (update_reader [''x'', ''y''] (new_SmoothDisplay\<lparr>last_lines := [''a'', ''b'', ''c'', ''d'', ''e'']\<rparr>))
          = [cursor_home] @ concat (map (\<lambda>line. [clear_eol, line @ newline]) [''x'', ''y''])
              @ replicate (length [''a'', ''b'', ''c'', ''d'', ''e''] - length [''x'', ''y'']) (clear_eol @ newline)"
    using u h by blast
  then have rout: "fst (update_reader [''x'', ''y''] (new_SmoothDisplay\<lparr>last_lines := [''a'', ''b'', ''c'', ''d'', ''e'']\<rparr>))
          = [cursor_home, clear_eol, ''x'' @ newline, clear_eol, ''y'' @ newline,
             clear_eol @ newline, clear_eol @ newline, clear_eol @ newline]"
    unfolding three by simp
  from h out keep rout show ?thesis
    by blast
qed

section \<open>Lock discipline of the tick counter\<close>

lemma exec_lock:
  "exec i th f m lk = Some (f1, m1, lk1) \<Longrightarrow>
     todo f1 = todo f \<and>
     lk1 = (case i of Acquire \<Rightarrow> Some th | Release \<Rightarrow> None | _ \<Rightarrow> lk) \<and>
     (i = Acquire \<longrightarrow> lk = None)"
  by (cases i) (auto split: if_splits)

lemma step_Reader:
  assumes "lock_inv c" "step Reader c = Some c1"
  shows "lock_inv c1 \<and> \<not> unguarded Reader c"
proof (cases "todo (reader c)")
  case Nil
  with assms(2) show ?thesis by (simp add: step_def frame_of_def)
next
  case (Cons i rest)
  from assms(2) Cons obtain f m lk where
    e: "exec i Reader ((reader c)\<lparr>todo := rest\<rparr>) (mock c) (lock c) = Some (f, m, lk)"
    and c1: "c1 = (c\<lparr>mock := m, lock := lk\<rparr>)\<lparr>reader := f\<rparr>"
    by (auto simp add: step_def frame_of_def set_frame_def split: option.splits)
  from exec_lock [OF e] have t: "todo f = rest"
    and l: "lk = (case i of Acquire \<Rightarrow> Some Reader | Release \<Rightarrow> None | _ \<Rightarrow> lock c)"
    and a: "i = Acquire \<longrightarrow> lock c = None"
    by simp_all
  from assms(1) Cons have dr: "disciplined (lock c = Some Reader) (i # rest)"
    and dc: "disciplined (lock c = Some Cadence) (todo (cadence c))"
    by (simp_all add: lock_inv_def)
  show ?thesis
    using dr dc t l a Cons
    by (cases i) (auto simp add: lock_inv_def c1 unguarded_def frame_of_def)
qed

lemma step_Cadence:
  assumes "lock_inv c" "step Cadence c = Some c1"
  shows "lock_inv c1 \<and> \<not> unguarded Cadence c"
proof (cases "todo (cadence c)")
  case Nil
  with assms(2) show ?thesis by (simp add: step_def frame_of_def)
next
  case (Cons i rest)
  from assms(2) Cons obtain f m lk where
    e: "exec i Cadence ((cadence c)\<lparr>todo := rest\<rparr>) (mock c) (lock c) = Some (f, m, lk)"
    and c1: "c1 = (c\<lparr>mock := m, lock := lk\<rparr>)\<lparr>cadence := f\<rparr>"
    by (auto simp add: step_def frame_of_def set_frame_def split: option.splits)
  from exec_lock [OF e] have t: "todo f = rest"
    and l: "lk = (case i of Acquire \<Rightarrow> Some Cadence | Release \<Rightarrow> None | _ \<Rightarrow> lock c)"
    and a: "i = Acquire \<longrightarrow> lock c = None"
    by simp_all
  from assms(1) Cons have dc: "disciplined (lock c = Some Cadence) (i # rest)"
    and dr: "disciplined (lock c = Some Reader) (todo (reader c))"
    by (simp_all add: lock_inv_def)
  show ?thesis
    using dr dc t l a Cons
    by (cases i) (auto simp add: lock_inv_def c1 unguarded_def frame_of_def)
qed

lemma step_lock_inv:
  "lock_inv c \<Longrightarrow> step th c = Some c1 \<Longrightarrow> lock_inv c1 \<and> \<not> unguarded th c"
proof (cases th)
  case Reader
  assume "lock_inv c" and "step th c = Some c1"
  then show ?thesis unfolding Reader by (rule step_Reader)
next
  case Cadence
  assume "lock_inv c" and "step th c = Some c1"
  then show ?thesis unfolding Cadence by (rule step_Cadence)
qed

lemma disciplined_runs_guarded:
  "lock_inv c \<Longrightarrow> run_threads ths c = Some (n, c1) \<Longrightarrow> n = 0 \<and> lock_inv c1"
proof (induction ths arbitrary: c n)
  case Nil
  then show ?case by simp
next
  case (Cons th ths)
  from Cons.prems(2) obtain c2 k where
    s: "step th c = Some c2" and r: "run_threads ths c2 = Some (k, c1)"
    and n: "n = (if unguarded th c then 1 else 0) + k"
    by (auto split: option.splits)
  from step_lock_inv [OF Cons.prems(1) s] have i: "lock_inv c2" and g: "\<not> unguarded th c"
    by simp_all
  from Cons.IH [OF i r] have "k = 0" and "lock_inv c1"
    by simp_all
  with n g show ?case by simp
qed

lemma disciplined_programs:
  "disciplined False (is_pressed_prog key) \<and> disciplined False (ticker_prog False)
   \<and> \<not> disciplined False sleep_prog \<and> \<not> disciplined False (ticker_prog True)"
  by (simp add: is_pressed_prog_def ticker_prog_def sleep_prog_def)

lemma is_pressed_prog_alone:
  "run_threads [Reader, Reader, Reader, Reader, Reader, Reader] (start m (is_pressed_prog key) cs)
     = Some (0, \<lparr>mock = snd (is_pressed key m), lock = None,
                 reader = \<lparr>todo = [], tmp = 0, want = schedule m (tick m), ok = fst (is_pressed key m)\<rparr>,
                 cadence = fresh cs\<rparr>)"
  by (simp add: start_def is_pressed_prog_def fresh_def step_def unguarded_def frame_of_def
        set_frame_def is_pressed_def Let_def)


lemma unpatched_runs_guarded:
  "run_threads ths (start m (is_pressed_prog key) (ticker_prog False)) = Some (n, c) \<Longrightarrow> n = 0"
proof -
  assume r: "run_threads ths (start m (is_pressed_prog key) (ticker_prog False)) = Some (n, c)"
  have "lock_inv (start m (is_pressed_prog key) (ticker_prog False))"
    using disciplined_programs [of key] by (simp add: lock_inv_def start_def fresh_def)
  from disciplined_runs_guarded [OF this r] show ?thesis
    by simp
qed

text \<open>
  Claim C9 says that every read and write of the tick counter and the fired set, those of
  the patched wait included, lies inside the critical section of the lock, so that a
  trigger check never sees a tick that changes under it. \<open>_ticker\<close> and \<open>is_pressed\<close> do
  take the lock (\<open>unpatched_runs_guarded\<close>: without the patch no execution has an
  unguarded access), but \<open>_sleep\<close> increments the counter without it. Two executions
  from the scheduler of \<open>{5: 'c', 6: 'e'}\<close> at tick 5 show it.

  In the first the reader is in its own call of the patched \<open>time.sleep\<close> while the
  \<open>_ticker\<close> thread is inside \<open>with mock._lock\<close>: the reader reads and writes the counter
  while the other thread holds the lock (two unguarded accesses), and of the two increments
  one is lost (the tick ends at 6, not 7).

  In the second the reader is inside \<open>is_pressed('c')\<close>, holding the lock, when the
  \<open>_ticker\<close> thread's call \<open>_time.sleep(period)\<close>, which runs the patched \<open>_sleep\<close>,
  increments the counter: the check looks the schedule up at tick 5, then tests and marks
  tick 6. It answers true, the history records \<open>(6, 'c')\<close>, and the event \<open>e\<close> scheduled at
  tick 6 is marked as fired without having been delivered: the query for it at tick 6 is
  answered false.
\<close>

theorem patched_sleep_outside_lock:
  "(case run_threads [Cadence, Cadence, Cadence, Reader, Reader, Cadence, Cadence, Reader]
           (start two_events sleep_prog (ticker_prog False)) of
      None \<Rightarrow> False
    | Some (n, c) \<Rightarrow> n = 2 \<and> tick (mock c) = 6 \<and> lock c = None
        \<and> todo (reader c) = [] \<and> todo (cadence c) = [])
   \<and> (case run_threads [Reader, Reader, Cadence, Cadence, Reader, Reader, Reader, Reader]
           (start two_events (is_pressed_prog ''c'') (ticker_prog True)) of
      None \<Rightarrow> False
    | Some (n, c) \<Rightarrow> n = 2 \<and> ok (reader c) \<and> want (reader c) = Some ''c''
        \<and> tick (mock c) = 6 \<and> fired (mock c) = {6} \<and> history (mock c) = [(6, ''c'')]
        \<and> lock c = None \<and> todo (reader c) = []
        \<and> schedule (mock c) (tick (mock c)) = Some ''e''
        \<and> \<not> fst (is_pressed ''e'' (mock c)))"
  by (simp add: start_def two_events_def is_pressed_prog_def ticker_prog_def sleep_prog_def
        fresh_def step_def unguarded_def frame_of_def set_frame_def is_pressed_def)

end
